theory Spec2Isabelle
  imports Complex_Main
begin

section \<open>Year handling (years.py)\<close>

subsection \<open>Data model\<close>

text \<open>The enumeration \<^verbatim>\<open>YearFormat\<close>.\<close>

datatype YearFormat =
  FULL_YEAR | SHORT_YEAR | RANGE_FULL | RANGE_SHORT | RANGE_MIXED | LIST_MIXED | INVALID

text \<open>
  The dataclass \<^verbatim>\<open>YearRange\<close>. Python integers are unbounded, hence \<open>int\<close>.
\<close>

record YearRange =
  start_year :: int
  end_year :: int
  original_text :: string
  format_detected :: YearFormat

text \<open>
  Constructing a \<^verbatim>\<open>YearRange\<close> runs \<^verbatim>\<open>__post_init__\<close>, which swaps the two
  years when they arrive reversed.
\<close>

definition mk_YearRange :: "int \<Rightarrow> int \<Rightarrow> string \<Rightarrow> YearFormat \<Rightarrow> YearRange" where
  "mk_YearRange s e t f =
     (if s > e
      then \<lparr>start_year = e, end_year = s, original_text = t, format_detected = f\<rparr>
      else \<lparr>start_year = s, end_year = e, original_text = t, format_detected = f\<rparr>)"

subsection \<open>Century rule and validity window\<close>

definition convert_short_year :: "int \<Rightarrow> int" where
  "convert_short_year short_year =
     (if short_year \<le> 29 then 2000 + short_year else 1900 + short_year)"

definition MIN_AUTOMOTIVE_YEAR :: int where
  "MIN_AUTOMOTIVE_YEAR = 1885"

text \<open>
  \<^verbatim>\<open>MAX_FUTURE_YEAR = datetime.now().year + 5\<close> is fixed when the class is created;
  the year read from the clock is the parameter \<open>now\<close>.
\<close>

definition MAX_FUTURE_YEAR :: "int \<Rightarrow> int" where
  "MAX_FUTURE_YEAR now = now + 5"

definition is_valid_automotive_year :: "int \<Rightarrow> int \<Rightarrow> bool" where
  "is_valid_automotive_year now year \<longleftrightarrow>
     MIN_AUTOMOTIVE_YEAR \<le> year \<and> year \<le> MAX_FUTURE_YEAR now"

subsection \<open>Consolidation of ranges\<close>

text \<open>
  One iteration of the loop of \<^verbatim>\<open>consolidate_ranges\<close>: \<open>consolidated\<close> is the list
  built so far (never empty inside the loop), \<open>current\<close> the next range of the sorted
  input. \<^verbatim>\<open>consolidated[-1] = YearRange(...)\<close> replaces the last element.
\<close>

definition consolidate_step :: "YearRange list \<Rightarrow> YearRange \<Rightarrow> YearRange list" where
  "consolidate_step consolidated current =
     (let lst = last consolidated in
      if start_year current \<le> end_year lst + 1
      then butlast consolidated @
             [mk_YearRange (start_year lst) (max (end_year lst) (end_year current))
                (original_text lst @ '', '' @ original_text current) RANGE_FULL]
      else consolidated @ [current])"

text \<open>
  \<^verbatim>\<open>sorted(ranges, key=lambda r: r.start_year)\<close> is a stable sort, as \<open>sort_key\<close> is.
\<close>

definition consolidate_ranges :: "YearRange list \<Rightarrow> YearRange list" where
  "consolidate_ranges ranges =
     (if ranges = [] then []
      else case sort_key start_year ranges of
             [] \<Rightarrow> []
           | first # others \<Rightarrow> foldl consolidate_step [first] others)"

text \<open>
  The consolidation as the specification words it: walking the sorted ranges, a range
  joins the group before it exactly when its start is at most that group's end plus one;
  a group of several ranges becomes one range from the first start to the largest end,
  whose text is the texts of its members joined by a comma and a space and whose format
  is \<open>RANGE_FULL\<close>; a group of one range is that range, unchanged.
\<close>

fun join_comma :: "string list \<Rightarrow> string" where
  "join_comma [] = []"
| "join_comma [t] = t"
| "join_comma (t # ts) = t @ '', '' @ join_comma ts"

definition group_end :: "YearRange list \<Rightarrow> int" where
  "group_end g = fold max (map end_year (tl g)) (end_year (hd g))"

fun spec_groups :: "YearRange list \<Rightarrow> YearRange list \<Rightarrow> YearRange list list" where
  "spec_groups g [] = [g]"
| "spec_groups g (r # rs) =
     (if start_year r \<le> group_end g + 1
      then spec_groups (g @ [r]) rs
      else g # spec_groups [r] rs)"

definition spec_merge_group :: "YearRange list \<Rightarrow> YearRange" where
  "spec_merge_group g =
     (if length g = 1 then hd g
      else \<lparr>start_year = start_year (hd g), end_year = group_end g,
             original_text = join_comma (map original_text g),
             format_detected = RANGE_FULL\<rparr>)"

definition spec_consolidate :: "YearRange list \<Rightarrow> YearRange list" where
  "spec_consolidate ranges =
     (case sort_key start_year ranges of
        [] \<Rightarrow> []
      | first # others \<Rightarrow> map spec_merge_group (spec_groups [first] others))"

text \<open>A sample input: unsorted, with an adjacent pair, a one-year gap and a wide gap.\<close>

definition ex_adjacent :: "YearRange list" where
  "ex_adjacent =
     [\<lparr>start_year = 2013, end_year = 2015, original_text = ''2013-2015'', format_detected = RANGE_SHORT\<rparr>,
      \<lparr>start_year = 2010, end_year = 2012, original_text = ''2010-2012'', format_detected = RANGE_FULL\<rparr>,
      \<lparr>start_year = 2020, end_year = 2022, original_text = ''2020-2022'', format_detected = FULL_YEAR\<rparr>,
      \<lparr>start_year = 2017, end_year = 2018, original_text = ''17-18'', format_detected = RANGE_SHORT\<rparr>]"

subsection \<open>Python strings and integers\<close>

text \<open>
  A text is a list of characters, each standing for one code point below 256. The
  exceptions that the modelled code can raise are values.
\<close>

datatype py_error = ValueError | TypeError | IndexError

text \<open>
  \<^verbatim>\<open>str.strip()\<close> removes the characters for which \<^verbatim>\<open>str.isspace\<close> holds from both
  ends: below 256 these are 9 to 13, 28 to 32, 133 and 160.
\<close>

definition is_space :: "char \<Rightarrow> bool" where
  "is_space c \<longleftrightarrow>
     (let n = (of_char c :: nat)
      in (9 \<le> n \<and> n \<le> 13) \<or> (28 \<le> n \<and> n \<le> 32) \<or> n = 133 \<or> n = 160)"

definition strip :: "string \<Rightarrow> string" where
  "strip s = rev (dropWhile is_space (rev (dropWhile is_space s)))"

text \<open>\<^verbatim>\<open>text.replace("'", "")\<close>.\<close>

definition drop_apostrophes :: "string \<Rightarrow> string" where
  "drop_apostrophes s = filter (\<lambda>c. c \<noteq> CHR 0x27) s"

text \<open>\<^verbatim>\<open>text.split(',')\<close>: the pieces between the commas, empty pieces included.\<close>

fun split_commas :: "string \<Rightarrow> string list" where
  "split_commas [] = [ [] ]"
| "split_commas (c # cs) =
     (if c = CHR '','' then [] # split_commas cs
      else case split_commas cs of
             [] \<Rightarrow> [ [c] ]
           | p # ps \<Rightarrow> (c # p) # ps)"

text \<open>
  \<^verbatim>\<open>str.lower()\<close>, one character at a time (below 256 no character changes the
  length of the text).
\<close>

definition lower_char :: "char \<Rightarrow> char" where
  "lower_char c =
     (let n = (of_char c :: nat)
      in if (65 \<le> n \<and> n \<le> 90) \<or> (192 \<le> n \<and> n \<le> 222 \<and> n \<noteq> 215)
         then char_of (n + 32) else c)"

definition lower :: "string \<Rightarrow> string" where
  "lower s = map lower_char s"

text \<open>
  \<^verbatim>\<open>int(text)\<close> on a string, base 10. The white space that \<^verbatim>\<open>int\<close> skips at both
  ends is 9 to 13, 32, 133 and 160 (not 28 to 31); then comes an optional sign and a
  body of decimal digits in which single underscores may separate digits. Anything
  else raises \<^verbatim>\<open>ValueError\<close>.
\<close>

definition is_digit :: "char \<Rightarrow> bool" where
  "is_digit c \<longleftrightarrow> (let n = (of_char c :: nat) in 48 \<le> n \<and> n \<le> 57)"

definition digit_value :: "char \<Rightarrow> int" where
  "digit_value c = int (of_char c :: nat) - 48"

definition is_int_space :: "char \<Rightarrow> bool" where
  "is_int_space c \<longleftrightarrow>
     (let n = (of_char c :: nat) in (9 \<le> n \<and> n \<le> 13) \<or> n = 32 \<or> n = 133 \<or> n = 160)"

fun int_body_ok :: "string \<Rightarrow> bool" where
  "int_body_ok [] = False"
| "int_body_ok [c] = is_digit c"
| "int_body_ok (c # d # cs) =
     (is_digit c \<and> (if d = CHR ''_'' then int_body_ok cs else int_body_ok (d # cs)))"

definition digits_value :: "string \<Rightarrow> int" where
  "digits_value s = foldl (\<lambda>acc c. 10 * acc + digit_value c) 0 (filter is_digit s)"

definition py_int :: "string \<Rightarrow> py_error + int" where
  "py_int text =
     (let t = rev (dropWhile is_int_space (rev (dropWhile is_int_space text)));
          negative = (t \<noteq> [] \<and> hd t = CHR ''-'');
          body = (if t \<noteq> [] \<and> (hd t = CHR ''-'' \<or> hd t = CHR ''+'') then tl t else t)
      in if int_body_ok body
         then Inr (if negative then - digits_value body else digits_value body)
         else Inl ValueError)"

subsection \<open>Regular expressions\<close>

text \<open>
  The patterns of \<^verbatim>\<open>PATTERNS\<close> are kept as syntax trees. A compiled pattern is a tree
  and the flag \<^verbatim>\<open>re.IGNORECASE\<close>.
\<close>

datatype rx =
    Eps
  | Lit char                  \<comment> \<open>one given character\<close>
  | OneOf string bool         \<comment> \<open>a class \<^verbatim>\<open>[...]\<close>; the flag says that it contains \<^verbatim>\<open>\s\<close>\<close>
  | Dig                       \<comment> \<open>\<^verbatim>\<open>\d\<close>\<close>
  | Spc                       \<comment> \<open>\<^verbatim>\<open>\s\<close>\<close>
  | Bound                     \<comment> \<open>\<^verbatim>\<open>\b\<close>\<close>
  | Cat rx rx
  | Alt rx rx
  | Opt rx                    \<comment> \<open>\<^verbatim>\<open>r?\<close>\<close>
  | Star rx                   \<comment> \<open>\<^verbatim>\<open>r*\<close>\<close>
  | Plus rx                   \<comment> \<open>\<^verbatim>\<open>r+\<close>\<close>
  | Grp rx                    \<comment> \<open>a capturing group \<^verbatim>\<open>(r)\<close>\<close>

record regex =
  tree :: rx
  ignorecase :: bool

fun ngroups :: "rx \<Rightarrow> nat" where
  "ngroups (Cat a b) = ngroups a + ngroups b"
| "ngroups (Alt a b) = ngroups a + ngroups b"
| "ngroups (Opt a) = ngroups a"
| "ngroups (Star a) = ngroups a"
| "ngroups (Plus a) = ngroups a"
| "ngroups (Grp a) = Suc (ngroups a)"
| "ngroups _ = 0"

text \<open>
  A match object: \<^verbatim>\<open>m.group(0)\<close> and the captured groups. \<^verbatim>\<open>m.group(i)\<close> raises
  \<^verbatim>\<open>IndexError\<close> for a group that the pattern does not have.
\<close>

record match =
  group0 :: string
  groups :: "string list"

definition group :: "match \<Rightarrow> nat \<Rightarrow> py_error + string" where
  "group m i =
     (if i = 0 then Inr (group0 m)
      else if i \<le> length (groups m) then Inr (groups m ! (i - 1))
      else Inl IndexError)"

text \<open>
  The regular-expression library is a parameter of the year processor:
  \<open>re_search eng p text\<close> is \<^verbatim>\<open>p.search(text)\<close> and \<open>re_findall eng p text\<close> is
  \<^verbatim>\<open>p.findall(text)\<close> for a pattern with at most one group.
\<close>

record re_engine =
  re_search :: "regex \<Rightarrow> string \<Rightarrow> match option"
  re_findall :: "regex \<Rightarrow> string \<Rightarrow> string list"

text \<open>
  What the code relies on from the library: a match carries one entry for each group
  of its pattern.
\<close>

definition engine_ok :: "re_engine \<Rightarrow> bool" where
  "engine_ok eng \<longleftrightarrow>
     (\<forall>p text m. re_search eng p text = Some m \<longrightarrow> length (groups m) = ngroups (tree p))"

subsection \<open>A backtracking matcher\<close>

text \<open>
  An instance of the library for the constructs above, used to run the processor on
  sample texts. A state of the matcher is the character prev_char the current position,
  the text from the current position on, and the groups closed so far. The matcher
  lists the states in which a pattern can end, in the order in which a backtracking
  matcher tries them.
\<close>

record mstate =
  prev_char :: "char option"
  rest :: string
  caps :: "string list"

text \<open>\<^verbatim>\<open>\w\<close> below 256: letters, digits, the underscore and the numeric signs.\<close>

definition is_word :: "char \<Rightarrow> bool" where
  "is_word c \<longleftrightarrow>
     (let n = (of_char c :: nat)
      in (48 \<le> n \<and> n \<le> 57) \<or> (65 \<le> n \<and> n \<le> 90) \<or> n = 95 \<or> (97 \<le> n \<and> n \<le> 122)
         \<or> n = 170 \<or> n = 178 \<or> n = 179 \<or> n = 181 \<or> n = 185 \<or> n = 186
         \<or> (188 \<le> n \<and> n \<le> 190) \<or> (192 \<le> n \<and> n \<le> 214) \<or> (216 \<le> n \<and> n \<le> 246)
         \<or> 248 \<le> n)"

definition at_boundary :: "mstate \<Rightarrow> bool" where
  "at_boundary s \<longleftrightarrow>
     (case prev_char s of None \<Rightarrow> False | Some c \<Rightarrow> is_word c)
       \<noteq> (case rest s of [] \<Rightarrow> False | c # _ \<Rightarrow> is_word c)"

definition step_char :: "(char \<Rightarrow> bool) \<Rightarrow> mstate \<Rightarrow> mstate list" where
  "step_char ok s =
     (case rest s of
        [] \<Rightarrow> []
      | c # cs \<Rightarrow> if ok c then [s\<lparr>prev_char := Some c, rest := cs\<rparr>] else [])"

text \<open>
  Greedy repetition: \<open>f\<close> lists the ends of one round; a round has to consume a
  character, so at most as many rounds as there are characters left are tried.
\<close>

fun repeat :: "(mstate \<Rightarrow> mstate list) \<Rightarrow> nat \<Rightarrow> mstate \<Rightarrow> mstate list" where
  "repeat f 0 s = [s]"
| "repeat f (Suc n) s =
     concat (map (repeat f n) (filter (\<lambda>s'. length (rest s') < length (rest s)) (f s))) @ [s]"

fun run :: "bool \<Rightarrow> rx \<Rightarrow> mstate \<Rightarrow> mstate list" where
  "run ic Eps s = [s]"
| "run ic (Lit c) s =
     step_char (\<lambda>x. if ic then lower_char x = lower_char c else x = c) s"
| "run ic (OneOf cs sp) s =
     step_char (\<lambda>x. (if ic then lower_char x \<in> set (map lower_char cs) else x \<in> set cs)
                      \<or> (sp \<and> is_space x)) s"
| "run ic Dig s = step_char is_digit s"
| "run ic Spc s = step_char is_space s"
| "run ic Bound s = (if at_boundary s then [s] else [])"
| "run ic (Cat a b) s = concat (map (run ic b) (run ic a s))"
| "run ic (Alt a b) s = run ic a s @ run ic b s"
| "run ic (Opt a) s = run ic a s @ [s]"
| "run ic (Star a) s = repeat (run ic a) (length (rest s)) s"
| "run ic (Plus a) s =
     concat (map (\<lambda>s'. repeat (run ic a) (length (rest s')) s') (run ic a s))"
| "run ic (Grp a) s =
     map (\<lambda>s'. s'\<lparr>caps := caps s' @ [take (length (rest s) - length (rest s')) (rest s)]\<rparr>)
       (run ic a s)"

text \<open>
  The first way to match at the current position, as a match object whose list of
  groups has one entry for each group of the pattern, and the text after the match.
\<close>

definition match_here :: "regex \<Rightarrow> char option \<Rightarrow> string \<Rightarrow> (match \<times> string) option" where
  "match_here p b text =
     (case run (ignorecase p) (tree p) \<lparr>prev_char = b, rest = text, caps = []\<rparr> of
        [] \<Rightarrow> None
      | s # _ \<Rightarrow>
          Some (\<lparr>group0 = take (length text - length (rest s)) text,
                 groups = take (ngroups (tree p)) (caps s @ replicate (ngroups (tree p)) [])\<rparr>,
                rest s))"

fun search_from :: "regex \<Rightarrow> char option \<Rightarrow> string \<Rightarrow> match option" where
  "search_from p b [] = map_option fst (match_here p b [])"
| "search_from p b (c # cs) =
     (case match_here p b (c # cs) of
        Some r \<Rightarrow> Some (fst r)
      | None \<Rightarrow> search_from p (Some c) cs)"

text \<open>
  \<^verbatim>\<open>findall\<close>: the matches from left to right, none overlapping another; \<open>skip\<close>
  counts the characters still covered by the last match. An entry of the result is
  the group of the pattern when it has one, the whole match otherwise.
\<close>

definition findall_entry :: "match \<Rightarrow> string" where
  "findall_entry m = (case groups m of [] \<Rightarrow> group0 m | g # _ \<Rightarrow> g)"

fun findall_from :: "regex \<Rightarrow> char option \<Rightarrow> string \<Rightarrow> nat \<Rightarrow> string list" where
  "findall_from p b [] skip =
     (if skip > 0 then []
      else case match_here p b [] of None \<Rightarrow> [] | Some r \<Rightarrow> [findall_entry (fst r)])"
| "findall_from p b (c # cs) skip =
     (if skip > 0 then findall_from p (Some c) cs (skip - 1)
      else case match_here p b (c # cs) of
             None \<Rightarrow> findall_from p (Some c) cs 0
           | Some r \<Rightarrow>
               findall_entry (fst r)
                 # findall_from p (Some c) cs (length (group0 (fst r)) - 1))"

definition py_re :: re_engine where
  "py_re = \<lparr>re_search = (\<lambda>p text. search_from p None text),
            re_findall = (\<lambda>p text. findall_from p None text 0)\<rparr>"

subsection \<open>The table \<^verbatim>\<open>PATTERNS\<close>\<close>

definition seq :: "rx list \<Rightarrow> rx" where
  "seq rs = foldr Cat rs Eps"

definition word :: "string \<Rightarrow> rx" where
  "word s = seq (map Lit s)"

text \<open>\<^verbatim>\<open>[0-9]\<close>, \<^verbatim>\<open>[-~\/]\<close> and \<^verbatim>\<open>[0-9\-\~\,\'\s]\<close>.\<close>

definition digit09 :: rx where
  "digit09 = OneOf ''0123456789'' False"

definition range_sep :: rx where
  "range_sep = OneOf ''-~/'' False"

definition year_chars :: rx where
  "year_chars = OneOf (''0123456789-~,'' @ [CHR 0x27]) True"

text \<open>\<^verbatim>\<open>19[0-9]{2}|20[0-9]{2}\<close> and \<^verbatim>\<open>'?\<close>.\<close>

definition year4 :: rx where
  "year4 = Alt (seq [word ''19'', digit09, digit09]) (seq [word ''20'', digit09, digit09])"

definition apostrophe_opt :: rx where
  "apostrophe_opt = Opt (Lit (CHR 0x27))"

text \<open>\<^verbatim>\<open>\b(19[0-9]{2}|20[0-9]{2})\b\<close>\<close>

definition pat_full_single :: regex where
  "pat_full_single = \<lparr>tree = seq [Bound, Grp year4, Bound], ignorecase = False\<rparr>"

text \<open>\<^verbatim>\<open>'?(\d{2})\b\<close>\<close>

definition pat_short_single :: regex where
  "pat_short_single =
     \<lparr>tree = seq [apostrophe_opt, Grp (seq [Dig, Dig]), Bound], ignorecase = False\<rparr>"

text \<open>\<^verbatim>\<open>\b(19[0-9]{2}|20[0-9]{2})\s*[-~\/]\s*(19[0-9]{2}|20[0-9]{2})\b\<close>\<close>

definition pat_range_full :: regex where
  "pat_range_full =
     \<lparr>tree = seq [Bound, Grp year4, Star Spc, range_sep, Star Spc, Grp year4, Bound],
      ignorecase = False\<rparr>"

text \<open>\<^verbatim>\<open>'?(\d{2})\s*[-~\/]\s*'?(\d{2})\b\<close>\<close>

definition pat_range_short :: regex where
  "pat_range_short =
     \<lparr>tree = seq [apostrophe_opt, Grp (seq [Dig, Dig]), Star Spc, range_sep, Star Spc,
                  apostrophe_opt, Grp (seq [Dig, Dig]), Bound],
      ignorecase = False\<rparr>"

text \<open>\<^verbatim>\<open>'?(\d{2})\s*[-~\/]\s*(19[0-9]{2}|20[0-9]{2})\b\<close>\<close>

definition pat_range_mixed :: regex where
  "pat_range_mixed =
     \<lparr>tree = seq [apostrophe_opt, Grp (seq [Dig, Dig]), Star Spc, range_sep, Star Spc,
                  Grp year4, Bound],
      ignorecase = False\<rparr>"

text \<open>
  \<^verbatim>\<open>\b(?:(?:19|20)[0-9]{2}|\'?\d{2})(?:\s*,\s*(?:(?:19|20)[0-9]{2}|\'?\d{2}))+\b\<close>
\<close>

definition list_item :: rx where
  "list_item =
     Alt (seq [Alt (word ''19'') (word ''20''), digit09, digit09])
         (seq [apostrophe_opt, Dig, Dig])"

definition pat_list_comma :: regex where
  "pat_list_comma =
     \<lparr>tree = seq [Bound, list_item,
                  Plus (seq [Star Spc, Lit (CHR '',''), Star Spc, list_item]), Bound],
      ignorecase = False\<rparr>"

text \<open>\<^verbatim>\<open>[\[\(]\s*([0-9\-\~\,\'\s]+)\s*[\]\)]\<close>\<close>

definition pat_depo_format :: regex where
  "pat_depo_format =
     \<lparr>tree = seq [OneOf ''[('' False, Star Spc, Grp (Plus year_chars), Star Spc,
                  OneOf ''])'' False],
      ignorecase = False\<rparr>"

text \<open>\<^verbatim>\<open>([0-9\-\~\,\'\s]+)(?:\s+type|\s+model|\s+year)\<close>, with \<^verbatim>\<open>re.IGNORECASE\<close>\<close>

definition pat_yuto_format :: regex where
  "pat_yuto_format =
     \<lparr>tree = seq [Grp (Plus year_chars),
                  Alt (seq [Plus Spc, word ''type''])
                    (Alt (seq [Plus Spc, word ''model'']) (seq [Plus Spc, word ''year'']))],
      ignorecase = True\<rparr>"

text \<open>\<^verbatim>\<open>(?:year|yr|model)\s*:?\s*([0-9\-\~\,\'\s]+)\<close>, with \<^verbatim>\<open>re.IGNORECASE\<close>\<close>

definition pat_hushan_format :: regex where
  "pat_hushan_format =
     \<lparr>tree = seq [Alt (word ''year'') (Alt (word ''yr'') (word ''model'')), Star Spc,
                  Opt (Lit (CHR '':'')), Star Spc, Grp (Plus year_chars)],
      ignorecase = True\<rparr>"

definition PATTERNS :: "(string \<times> regex) list" where
  "PATTERNS =
     [(''full_single'', pat_full_single),
      (''short_single'', pat_short_single),
      (''range_full'', pat_range_full),
      (''range_short'', pat_range_short),
      (''range_mixed'', pat_range_mixed),
      (''list_comma'', pat_list_comma),
      (''depo_format'', pat_depo_format),
      (''yuto_format'', pat_yuto_format),
      (''hushan_format'', pat_hushan_format)]"

subsection \<open>Format detection and parsing\<close>

text \<open>
  \<^verbatim>\<open>detect_year_format\<close>: the patterns are tried on the stripped text in the order
  of the \<^verbatim>\<open>if\<close>/\<^verbatim>\<open>elif\<close> chain.
\<close>

definition detect_year_format :: "re_engine \<Rightarrow> string \<Rightarrow> YearFormat" where
  "detect_year_format eng text =
     (let text = strip text in
      if re_search eng pat_range_full text \<noteq> None then RANGE_FULL
      else if re_search eng pat_range_mixed text \<noteq> None then RANGE_MIXED
      else if re_search eng pat_range_short text \<noteq> None then RANGE_SHORT
      else if re_search eng pat_list_comma text \<noteq> None then LIST_MIXED
      else if re_search eng pat_full_single text \<noteq> None then FULL_YEAR
      else if re_search eng pat_short_single text \<noteq> None then SHORT_YEAR
      else INVALID)"

text \<open>
  The precedence of the formats as the specification lists it: the first pattern of
  this list that matches decides, and \<open>INVALID\<close> is the answer when none does.
\<close>

definition format_precedence :: "(regex \<times> YearFormat) list" where
  "format_precedence =
     [(pat_range_full, RANGE_FULL), (pat_range_mixed, RANGE_MIXED),
      (pat_range_short, RANGE_SHORT), (pat_list_comma, LIST_MIXED),
      (pat_full_single, FULL_YEAR), (pat_short_single, SHORT_YEAR)]"

definition spec_detect_format :: "re_engine \<Rightarrow> string \<Rightarrow> YearFormat" where
  "spec_detect_format eng text =
     (case find (\<lambda>pf. re_search eng (fst pf) (strip text) \<noteq> None) format_precedence of
        None \<Rightarrow> INVALID
      | Some pf \<Rightarrow> snd pf)"

text \<open>
  \<^verbatim>\<open>parse_single_year\<close>. The \<^verbatim>\<open>try\<close> block catches \<^verbatim>\<open>ValueError\<close> only; any
  other exception would leave the function.
\<close>

definition parse_single_year :: "int \<Rightarrow> string \<Rightarrow> py_error + int option" where
  "parse_single_year now text =
     (let text = drop_apostrophes (strip text) in
      case py_int text of
        Inl ValueError \<Rightarrow> Inr None
      | Inl e \<Rightarrow> Inl e
      | Inr year_int \<Rightarrow>
          let year_int = (if 0 \<le> year_int \<and> year_int \<le> 99
                          then convert_short_year year_int else year_int)
          in if is_valid_automotive_year now year_int then Inr (Some year_int) else Inr None)"

definition parse_year_range ::
  "int \<Rightarrow> string \<Rightarrow> string \<Rightarrow> string \<Rightarrow> py_error + YearRange option" where
  "parse_year_range now start_text end_text original =
     (case parse_single_year now start_text of
        Inl e \<Rightarrow> Inl e
      | Inr start_parsed \<Rightarrow>
          (case parse_single_year now end_text of
             Inl e \<Rightarrow> Inl e
           | Inr end_parsed \<Rightarrow>
               (case (start_parsed, end_parsed) of
                  (Some s, Some e) \<Rightarrow>
                    Inr (Some (mk_YearRange s e original
                      (if length (drop_apostrophes start_text) = 2
                          \<and> length (drop_apostrophes end_text) = 2 then RANGE_SHORT
                       else if length (drop_apostrophes start_text) = 2 \<and> length end_text = 4
                       then RANGE_MIXED
                       else RANGE_FULL)))
                | _ \<Rightarrow> Inr None)))"

text \<open>The loop of \<^verbatim>\<open>parse_year_list\<close> over the stripped pieces, and the function.\<close>

fun parse_parts :: "int \<Rightarrow> string list \<Rightarrow> YearRange list \<Rightarrow> py_error + YearRange list" where
  "parse_parts now [] ranges = Inr ranges"
| "parse_parts now (part # parts) ranges =
     (if part = [] then parse_parts now parts ranges
      else case parse_single_year now part of
             Inl e \<Rightarrow> Inl e
           | Inr None \<Rightarrow> parse_parts now parts ranges
           | Inr (Some year) \<Rightarrow>
               parse_parts now parts
                 (ranges @ [mk_YearRange year year part
                    (if length (drop_apostrophes part) = 4 then FULL_YEAR else SHORT_YEAR)]))"

definition parse_year_list :: "int \<Rightarrow> string \<Rightarrow> py_error + YearRange list" where
  "parse_year_list now text = parse_parts now (map strip (split_commas text)) []"

subsection \<open>Extraction with the cache\<close>

text \<open>
  The branches for the three range formats of \<^verbatim>\<open>extract_years_from_text\<close>: search
  again, and hand \<^verbatim>\<open>group(1)\<close>, \<^verbatim>\<open>group(2)\<close> and \<^verbatim>\<open>group(0)\<close> to
  \<^verbatim>\<open>parse_year_range\<close>; \<open>ranges\<close> is the list built so far.
\<close>

definition range_branch ::
  "re_engine \<Rightarrow> int \<Rightarrow> regex \<Rightarrow> string \<Rightarrow> YearRange list \<Rightarrow> py_error + YearRange list" where
  "range_branch eng now p text ranges =
     (case re_search eng p text of
        None \<Rightarrow> Inr ranges
      | Some m \<Rightarrow>
          (case group m 1 of Inl e \<Rightarrow> Inl e | Inr g1 \<Rightarrow>
          (case group m 2 of Inl e \<Rightarrow> Inl e | Inr g2 \<Rightarrow>
          (case group m 0 of Inl e \<Rightarrow> Inl e | Inr g0 \<Rightarrow>
          (case parse_year_range now g1 g2 g0 of
             Inl e \<Rightarrow> Inl e
           | Inr None \<Rightarrow> Inr ranges
           | Inr (Some year_range) \<Rightarrow> Inr (ranges @ [year_range]))))))"

text \<open>The loop over the single years found.\<close>

fun single_years ::
  "int \<Rightarrow> YearFormat \<Rightarrow> string list \<Rightarrow> YearRange list \<Rightarrow> py_error + YearRange list" where
  "single_years now format_type [] ranges = Inr ranges"
| "single_years now format_type (m # matches) ranges =
     (case parse_single_year now m of
        Inl e \<Rightarrow> Inl e
      | Inr None \<Rightarrow> single_years now format_type matches ranges
      | Inr (Some year) \<Rightarrow>
          single_years now format_type matches
            (ranges @ [mk_YearRange year year m format_type]))"

text \<open>
  The part of \<^verbatim>\<open>extract_years_from_text\<close> from \<^verbatim>\<open>detect_year_format\<close> to the last
  \<^verbatim>\<open>append\<close>, on the stripped text.
\<close>

definition scan_text ::
  "re_engine \<Rightarrow> int \<Rightarrow> string \<Rightarrow> YearRange list \<Rightarrow> py_error + YearRange list" where
  "scan_text eng now text ranges =
     (case detect_year_format eng text of
        RANGE_FULL \<Rightarrow> range_branch eng now pat_range_full text ranges
      | RANGE_SHORT \<Rightarrow> range_branch eng now pat_range_short text ranges
      | RANGE_MIXED \<Rightarrow> range_branch eng now pat_range_mixed text ranges
      | LIST_MIXED \<Rightarrow>
          (case re_search eng pat_list_comma text of
             None \<Rightarrow> Inr ranges
           | Some m \<Rightarrow>
               (case group m 0 of Inl e \<Rightarrow> Inl e | Inr g0 \<Rightarrow>
               (case parse_year_list now g0 of
                  Inl e \<Rightarrow> Inl e
                | Inr list_ranges \<Rightarrow> Inr (ranges @ list_ranges))))
      | FULL_YEAR \<Rightarrow> single_years now FULL_YEAR (re_findall eng pat_full_single text) ranges
      | SHORT_YEAR \<Rightarrow> single_years now SHORT_YEAR (re_findall eng pat_short_single text) ranges
      | INVALID \<Rightarrow> Inr ranges)"

text \<open>
  Lists are objects: the cache and the caller may hold the same list or different
  ones, and the caller may change a list it holds. So the lists live in a store,
  addressed by references; \<open>cache\<close> is \<^verbatim>\<open>self._cache\<close>, from keys to references.
\<close>

record world =
  lists :: "nat \<Rightarrow> YearRange list"
  next_ref :: nat
  cache :: "string \<rightharpoonup> nat"

text \<open>A new list object with the given elements: \<^verbatim>\<open>[]\<close>, or \<^verbatim>\<open>xs.copy()\<close>.\<close>

definition new_list :: "YearRange list \<Rightarrow> world \<Rightarrow> nat \<times> world" where
  "new_list xs w = (next_ref w, w\<lparr>lists := (lists w)(next_ref w := xs), next_ref := Suc (next_ref w)\<rparr>)"

text \<open>
  \<^verbatim>\<open>self._cache[cache_key] = ranges; return ranges.copy()\<close>: the list \<open>ranges\<close>, which
  only this call has seen so far, becomes an object of the store, the cache refers to
  it, and the caller receives a copy.
\<close>

definition store_and_copy :: "string \<Rightarrow> YearRange list \<Rightarrow> world \<Rightarrow> nat \<times> world" where
  "store_and_copy cache_key ranges w =
     (let (r, w) = new_list ranges w;
          w = w\<lparr>cache := (cache w)(cache_key \<mapsto> r)\<rparr>
      in new_list (lists w r) w)"

text \<open>
  The cache key \<^verbatim>\<open>f"{text}:{vendor_specific}"\<close>; \<^verbatim>\<open>None\<close> prints as \<^verbatim>\<open>None\<close>.
\<close>

definition cache_key_of :: "string \<Rightarrow> string option \<Rightarrow> string" where
  "cache_key_of text vendor_specific =
     text @ '':'' @ (case vendor_specific of None \<Rightarrow> ''None'' | Some v \<Rightarrow> v)"

text \<open>
  \<^verbatim>\<open>extract_years_from_text(text)\<close> without a vendor: the branch on
  \<^verbatim>\<open>vendor_specific\<close> is skipped.
\<close>

definition extract_plain ::
  "re_engine \<Rightarrow> int \<Rightarrow> string \<Rightarrow> world \<Rightarrow> py_error + (nat \<times> world)" where
  "extract_plain eng now text w =
     (if text = [] \<or> strip text = [] then Inr (new_list [] w)
      else
        let cache_key = cache_key_of text None in
        case cache w cache_key of
          Some r \<Rightarrow> Inr (new_list (lists w r) w)
        | None \<Rightarrow>
            (case scan_text eng now (strip text) [] of
               Inl e \<Rightarrow> Inl e
             | Inr ranges \<Rightarrow> Inr (store_and_copy cache_key ranges w)))"

text \<open>
  The loop over the matches of the vendor's pattern: each match is processed by the
  function itself, called without a vendor, and the elements of the list it returns
  are appended to \<open>ranges\<close>.
\<close>

fun extend_from_matches ::
  "re_engine \<Rightarrow> int \<Rightarrow> string list \<Rightarrow> YearRange list \<Rightarrow> world \<Rightarrow>
     py_error + (YearRange list \<times> world)" where
  "extend_from_matches eng now [] ranges w = Inr (ranges, w)"
| "extend_from_matches eng now (m # matches) ranges w =
     (case extract_plain eng now m w of
        Inl e \<Rightarrow> Inl e
      | Inr (sub_ranges, w) \<Rightarrow>
          extend_from_matches eng now matches (ranges @ lists w sub_ranges) w)"

text \<open>
  \<^verbatim>\<open>extract_years_from_text(text, vendor_specific)\<close>. The call inside the loop passes
  no vendor, so the recursion is one level deep; \<open>extract_plain\<close> is that inner call.
\<close>

definition extract_years_from_text ::
  "re_engine \<Rightarrow> int \<Rightarrow> string \<Rightarrow> string option \<Rightarrow> world \<Rightarrow> py_error + (nat \<times> world)" where
  "extract_years_from_text eng now text vendor_specific w =
     (if text = [] \<or> strip text = [] then Inr (new_list [] w)
      else
        let cache_key = cache_key_of text vendor_specific in
        case cache w cache_key of
          Some r \<Rightarrow> Inr (new_list (lists w r) w)
        | None \<Rightarrow>
            let text = strip text in
            (case (case vendor_specific of
                     None \<Rightarrow> Inr ([], w)
                   | Some v \<Rightarrow>
                       if v = [] then Inr ([], w)
                       else (case map_of PATTERNS (lower v @ ''_format'') of
                               None \<Rightarrow> Inr ([], w)
                             | Some p \<Rightarrow> extend_from_matches eng now (re_findall eng p text) [] w)) of
               Inl e \<Rightarrow> Inl e
             | Inr (ranges, w) \<Rightarrow>
                 if ranges \<noteq> [] then Inr (store_and_copy cache_key ranges w)
                 else
                   (case scan_text eng now text ranges of
                      Inl e \<Rightarrow> Inl e
                    | Inr ranges \<Rightarrow> Inr (store_and_copy cache_key ranges w))))"

text \<open>A processor as \<^verbatim>\<open>__init__\<close> leaves it: nothing cached, no list allocated.\<close>

definition new_world :: world where
  "new_world = \<lparr>lists = (\<lambda>_. []), next_ref = 0, cache = Map.empty\<rparr>"

text \<open>The number that two decimal digits write.\<close>

definition two_digits :: "char \<Rightarrow> char \<Rightarrow> int" where
  "two_digits a b = 10 * digit_value a + digit_value b"

subsection \<open>Invariants of the store and the cache\<close>

text \<open>A range whose two years are inside the valid window.\<close>

definition valid_range :: "int \<Rightarrow> YearRange \<Rightarrow> bool" where
  "valid_range now r \<longleftrightarrow>
     is_valid_automotive_year now (start_year r) \<and> is_valid_automotive_year now (end_year r)"

text \<open>Every cached list holds valid ranges only.\<close>

definition cache_valid :: "int \<Rightarrow> world \<Rightarrow> bool" where
  "cache_valid now w \<longleftrightarrow>
     (\<forall>k r. cache w k = Some r \<longrightarrow> list_all (valid_range now) (lists w r))"

text \<open>The cache refers to allocated lists only.\<close>

definition refs_allocated :: "world \<Rightarrow> bool" where
  "refs_allocated w \<longleftrightarrow> (\<forall>k r. cache w k = Some r \<longrightarrow> r < next_ref w)"

text \<open>
  From \<open>w\<close> to \<open>w'\<close> lists were allocated and cache entries added, and nothing
  else: the lists of \<open>w\<close> and its cache entries are as they were.
\<close>

definition grows :: "world \<Rightarrow> world \<Rightarrow> bool" where
  "grows w w' \<longleftrightarrow>
     next_ref w \<le> next_ref w'
     \<and> (\<forall>r. r < next_ref w \<longrightarrow> lists w' r = lists w r)
     \<and> (\<forall>k r. cache w k = Some r \<longrightarrow> cache w' k = Some r)
     \<and> (\<forall>k r. cache w' k = Some r \<longrightarrow>
           cache w k = Some r \<or> (next_ref w \<le> r \<and> r < next_ref w'))"

text \<open>
  What can happen after a call: further calls of \<open>extract_years_from_text\<close>, with
  any arguments, and changes that a caller makes to a list that is not one of the
  cache's (adding or removing elements gives the list new contents \<open>xs\<close>).
\<close>

inductive later :: "re_engine \<Rightarrow> int \<Rightarrow> world \<Rightarrow> world \<Rightarrow> bool" for eng now w where
  later_now: "later eng now w w"
| later_call:
    "later eng now w w' \<Longrightarrow> extract_years_from_text eng now text vendor_specific w' = Inr (r, w'')
       \<Longrightarrow> later eng now w w''"
| later_mutate:
    "later eng now w w' \<Longrightarrow> r \<notin> ran (cache w')
       \<Longrightarrow> later eng now w (w'\<lparr>lists := (lists w')(r := xs)\<rparr>)"

text \<open>The elements of the list that a call returned, or the exception it raised.\<close>

definition returned :: "py_error + (nat \<times> world) \<Rightarrow> py_error + YearRange list" where
  "returned res = (case res of Inl e \<Rightarrow> Inl e | Inr rw \<Rightarrow> Inr (lists (snd rw) (fst rw)))"

text \<open>
  A sample session: a first call on a new processor, and the state after the caller
  has emptied the list that the call returned.
\<close>

definition ex_first :: "py_error + (nat \<times> world)" where
  "ex_first = extract_years_from_text py_re 2026 ''[2003-2008]'' (Some ''DEPO'') new_world"

definition ex_r1 :: nat where
  "ex_r1 = (case ex_first of Inl _ \<Rightarrow> 0 | Inr rw \<Rightarrow> fst rw)"

definition ex_w1 :: world where
  "ex_w1 = (case ex_first of Inl _ \<Rightarrow> new_world | Inr rw \<Rightarrow> snd rw)"

definition ex_w1_emptied :: world where
  "ex_w1_emptied = ex_w1\<lparr>lists := (lists ex_w1)(ex_r1 := [])\<rparr>"

subsection \<open>The year of a token\<close>

text \<open>
  The year that a token stands for, as the specification puts it: the token is read as
  a number (apostrophes and surrounding blanks aside), a number from 0 to 99 goes
  through the century rule, and a year outside the valid window is rejected, so that
  the token stands for no year; it is never moved into the window.
\<close>

definition token_year :: "int \<Rightarrow> string \<Rightarrow> int option" where
  "token_year now tok =
     (case py_int (drop_apostrophes (strip tok)) of
        Inl _ \<Rightarrow> None
      | Inr n \<Rightarrow>
          (let y = (if 0 \<le> n \<and> n \<le> 99 then convert_short_year n else n)
           in if is_valid_automotive_year now y then Some y else None))"


text \<open>
  The ranges that the tokens of a context give, as the specification describes them:
  one single-year range for each token that stands for a year, in the order of the
  tokens (for single years and for the elements of a list, where empty elements are
  skipped), and one range for a pair of tokens that both stand for a year.
\<close>

definition single_year_ranges :: "int \<Rightarrow> YearFormat \<Rightarrow> string list \<Rightarrow> YearRange list" where
  "single_year_ranges now format_type toks =
     List.map_filter
       (\<lambda>tok. map_option (\<lambda>y. mk_YearRange y y tok format_type) (token_year now tok)) toks"

definition list_ranges_of :: "int \<Rightarrow> string list \<Rightarrow> YearRange list" where
  "list_ranges_of now parts =
     List.map_filter
       (\<lambda>part. if part = [] then None
               else map_option
                      (\<lambda>y. mk_YearRange y y part
                             (if length (drop_apostrophes part) = 4 then FULL_YEAR else SHORT_YEAR))
                      (token_year now part))
       parts"

definition range_format :: "string \<Rightarrow> string \<Rightarrow> YearFormat" where
  "range_format start_text end_text =
     (if length (drop_apostrophes start_text) = 2 \<and> length (drop_apostrophes end_text) = 2
      then RANGE_SHORT
      else if length (drop_apostrophes start_text) = 2 \<and> length end_text = 4 then RANGE_MIXED
      else RANGE_FULL)"

definition pair_ranges :: "int \<Rightarrow> string \<Rightarrow> string \<Rightarrow> string \<Rightarrow> YearRange list" where
  "pair_ranges now start_text end_text original =
     (case token_year now start_text of
        None \<Rightarrow> []
      | Some s \<Rightarrow>
          (case token_year now end_text of
             None \<Rightarrow> []
           | Some e \<Rightarrow> [mk_YearRange s e original (range_format start_text end_text)]))"

text \<open>
  The ranges that a text gives, by its format: the pair of tokens of the first match
  of a range pattern, the elements of the first comma-separated list, or every single
  year found.
\<close>

definition range_tokens :: "re_engine \<Rightarrow> int \<Rightarrow> regex \<Rightarrow> string \<Rightarrow> YearRange list" where
  "range_tokens eng now p text =
     (case re_search eng p text of
        None \<Rightarrow> []
      | Some m \<Rightarrow> pair_ranges now (groups m ! 0) (groups m ! 1) (group0 m))"

definition text_ranges :: "re_engine \<Rightarrow> int \<Rightarrow> string \<Rightarrow> YearRange list" where
  "text_ranges eng now text =
     (case detect_year_format eng text of
        RANGE_FULL \<Rightarrow> range_tokens eng now pat_range_full text
      | RANGE_SHORT \<Rightarrow> range_tokens eng now pat_range_short text
      | RANGE_MIXED \<Rightarrow> range_tokens eng now pat_range_mixed text
      | LIST_MIXED \<Rightarrow>
          (case re_search eng pat_list_comma text of
             None \<Rightarrow> []
           | Some m \<Rightarrow> list_ranges_of now (map strip (split_commas (group0 m))))
      | FULL_YEAR \<Rightarrow> single_year_ranges now FULL_YEAR (re_findall eng pat_full_single text)
      | SHORT_YEAR \<Rightarrow> single_year_ranges now SHORT_YEAR (re_findall eng pat_short_single text)
      | INVALID \<Rightarrow> [])"

section \<open>Vendor detection (vendor\_detector.py)\<close>

subsection \<open>Data model\<close>

datatype VendorType = DEPO | YUTO | HUSHAN | GENERIC | UNKNOWN

datatype ConfidenceLevel = VERY_HIGH | HIGH | MEDIUM | LOW | VERY_LOW

datatype PDFStatus =
  VALID | CORRUPTED | ENCRYPTED | UNSUPPORTED | NOT_FOUND | PERMISSION_DENIED

text \<open>
  \<^verbatim>\<open>DetectionSignature\<close>: the three pattern lists and the weight. The lists
  \<^verbatim>\<open>_required_regex\<close>, \<^verbatim>\<open>_optional_regex\<close> and \<^verbatim>\<open>_exclusion_regex\<close> that
  \<^verbatim>\<open>compile_patterns\<close> builds hold one compiled pattern per source pattern, in the
  same order, so a pattern stands for its compiled form. The fields
  \<^verbatim>\<open>metadata_patterns\<close> and \<^verbatim>\<open>expected_structure\<close> are never read by the detector.
  Python floats are modelled by real numbers: the arithmetic below is exact.
\<close>

record DetectionSignature =
  required_patterns :: "string list"
  optional_patterns :: "string list"
  exclusion_patterns :: "string list"
  weight :: real

text \<open>
  \<^verbatim>\<open>DetectionResult\<close>, without the explanatory payload \<^verbatim>\<open>evidence\<close> and
  \<^verbatim>\<open>page_analysis\<close>; \<^verbatim>\<open>matched_signatures\<close> holds the indices \<open>i\<close> of the
  strings \<^verbatim>\<open>signature_i\<close>.
\<close>

record DetectionResult =
  vendor :: VendorType
  confidence :: real
  confidence_level :: ConfidenceLevel
  matched_signatures :: "nat list"

text \<open>\<^verbatim>\<open>DetectionResult.__post_init__\<close>: the banding of the confidence.\<close>

definition post_init_level :: "real \<Rightarrow> ConfidenceLevel" where
  "post_init_level c =
     (if c \<ge> 0.90 then VERY_HIGH
      else if c \<ge> 0.70 then HIGH
      else if c \<ge> 0.50 then MEDIUM
      else if c \<ge> 0.25 then LOW
      else VERY_LOW)"

text \<open>
  The constructor that \<^verbatim>\<open>@dataclass\<close> generates for \<^verbatim>\<open>DetectionResult\<close>. The
  fields \<^verbatim>\<open>vendor\<close>, \<^verbatim>\<open>confidence\<close> and \<^verbatim>\<open>confidence_level\<close> are declared without
  a default, so all three are required arguments: a call that leaves
  \<^verbatim>\<open>confidence_level\<close> out (here \<open>None\<close>) raises \<^verbatim>\<open>TypeError\<close> before
  \<^verbatim>\<open>__post_init__\<close> runs. When it is given, \<^verbatim>\<open>__post_init__\<close> overwrites it by the
  banding.
\<close>

definition DetectionResult_init ::
  "VendorType \<Rightarrow> real \<Rightarrow> ConfidenceLevel option \<Rightarrow> nat list \<Rightarrow> py_error + DetectionResult" where
  "DetectionResult_init v c lvl ms =
     (case lvl of
        None \<Rightarrow> Inl TypeError
      | Some _ \<Rightarrow> Inr \<lparr>vendor = v, confidence = c, confidence_level = post_init_level c,
                       matched_signatures = ms\<rparr>)"

text \<open>The fields of \<^verbatim>\<open>PDFMetadata\<close> that the detector reads.\<close>

record PDFMetadata =
  file_path :: string
  file_hash :: string
  status :: PDFStatus
  error_message :: "string option"

subsection \<open>Scoring one signature\<close>

text \<open>
  The regular-expression library is a parameter: \<open>findall p text\<close> is the list that
  \<^verbatim>\<open>re.compile(p, re.IGNORECASE | re.MULTILINE).findall(text)\<close> returns. A pattern
  counts when that list is not empty.
\<close>

type_synonym findall_fn = "string \<Rightarrow> string \<Rightarrow> string list"

definition count_matching :: "findall_fn \<Rightarrow> string list \<Rightarrow> string \<Rightarrow> nat" where
  "count_matching findall regexes full_text =
     length (filter (\<lambda>regex. findall regex full_text \<noteq> []) regexes)"

text \<open>
  The body of the loop over the signatures in \<^verbatim>\<open>_analyze_vendor_signatures\<close>, up
  to \<^verbatim>\<open>sig_score *= signature.weight\<close>. \<open>None\<close> is the \<^verbatim>\<open>continue\<close> taken when a
  required pattern is missing.
\<close>

definition signature_score :: "findall_fn \<Rightarrow> string \<Rightarrow> DetectionSignature \<Rightarrow> real option" where
  "signature_score findall full_text signature =
     (let required_matches = count_matching findall (required_patterns signature) full_text in
      if required_matches < length (required_patterns signature) then None
      else
        let sig_score = 0.0 + 0.6;
            optional_matches = count_matching findall (optional_patterns signature) full_text;
            sig_score =
              (if optional_patterns signature \<noteq> []
               then sig_score
                      + (real optional_matches / real (length (optional_patterns signature))) * 0.3
               else sig_score);
            exclusions_found = count_matching findall (exclusion_patterns signature) full_text;
            sig_score =
              (if exclusions_found > 0
               then sig_score * max 0.1 (1.0 - (real exclusions_found * 0.3))
               else sig_score);
            sig_score = sig_score * weight signature
        in Some sig_score)"

text \<open>
  What one signature adds to \<^verbatim>\<open>total_score\<close>: its score when that is positive,
  nothing otherwise.
\<close>

definition contribution :: "findall_fn \<Rightarrow> string \<Rightarrow> DetectionSignature \<Rightarrow> real" where
  "contribution findall full_text signature =
     (case signature_score findall full_text signature of
        None \<Rightarrow> 0
      | Some sig_score \<Rightarrow> if sig_score > 0 then sig_score else 0)"

text \<open>
  \<^verbatim>\<open>_analyze_vendor_signatures\<close>: the loop over \<^verbatim>\<open>enumerate(signatures)\<close>, with the
  running \<^verbatim>\<open>total_score\<close> and \<^verbatim>\<open>matched_signatures\<close>. The per-page statistics it
  also gathers are diagnostic and do not enter the score.
\<close>

definition analyze_step ::
  "findall_fn \<Rightarrow> string \<Rightarrow> real \<times> nat list \<Rightarrow> nat \<times> DetectionSignature \<Rightarrow> real \<times> nat list" where
  "analyze_step findall full_text acc entry =
     (case signature_score findall full_text (snd entry) of
        None \<Rightarrow> acc
      | Some sig_score \<Rightarrow>
          if sig_score > 0 then (fst acc + sig_score, snd acc @ [fst entry]) else acc)"

definition analyze_vendor_signatures ::
  "findall_fn \<Rightarrow> string \<Rightarrow> DetectionSignature list \<Rightarrow> real \<times> nat list" where
  "analyze_vendor_signatures findall full_text signatures =
     foldl (analyze_step findall full_text) (0.0, []) (enumerate 0 signatures)"

subsection \<open>Choosing the vendor\<close>

text \<open>
  A Python \<^verbatim>\<open>dict\<close> keeps its keys in insertion order; it is an association list
  here. \<open>dict_set\<close> is \<^verbatim>\<open>d[k] = v\<close>: an existing key keeps its place.
\<close>

fun dict_set :: "('k \<times> 'v) list \<Rightarrow> 'k \<Rightarrow> 'v \<Rightarrow> ('k \<times> 'v) list" where
  "dict_set [] k v = [(k, v)]"
| "dict_set ((k', v') # d) k v = (if k' = k then (k, v) # d else (k', v') # dict_set d k v)"

text \<open>
  \<^verbatim>\<open>max(d.keys(), key=lambda v: d[v])\<close> on a dictionary that is not empty: the first
  key, in insertion order, whose value is largest.
\<close>

fun max_key :: "'k \<times> real \<Rightarrow> ('k \<times> real) list \<Rightarrow> 'k \<times> real" where
  "max_key best [] = best"
| "max_key best (kv # d) = max_key (if snd kv > snd best then kv else best) d"

text \<open>The loop over the vendors of \<^verbatim>\<open>_perform_detection\<close>.\<close>

definition score_vendors ::
  "findall_fn \<Rightarrow> string \<Rightarrow> (VendorType \<times> DetectionSignature list) list \<Rightarrow>
     (VendorType \<times> real \<times> nat list) list" where
  "score_vendors findall full_text all_signatures =
     foldl (\<lambda>d entry.
              if fst entry = UNKNOWN then d
              else dict_set d (fst entry) (analyze_vendor_signatures findall full_text (snd entry)))
       [] all_signatures"

text \<open>
  The choice of \<^verbatim>\<open>best_vendor\<close>, \<^verbatim>\<open>confidence\<close> and the matched signatures of
  \<^verbatim>\<open>best_analysis\<close>. \<^verbatim>\<open>detailed_analysis.get(VendorType.GENERIC, {})\<close> and then
  \<^verbatim>\<open>.get('matched_signatures', [])\<close> give the empty list when GENERIC was not scored.
\<close>

definition select_best ::
  "(VendorType \<times> real \<times> nat list) list \<Rightarrow> VendorType \<times> real \<times> nat list" where
  "select_best scored =
     (let vendor_scores = map (\<lambda>e. (fst e, fst (snd e))) scored in
      case vendor_scores of
        [] \<Rightarrow> (GENERIC, 0.3, [])
      | kv # others \<Rightarrow>
          if snd (max_key kv others) = 0
          then (GENERIC, 0.3, (case map_of scored GENERIC of None \<Rightarrow> [] | Some a \<Rightarrow> snd a))
          else
            let best_vendor = fst (max_key kv others);
                max_score = snd (max_key kv others)
            in (best_vendor, min max_score 1.0,
                (case map_of scored best_vendor of None \<Rightarrow> [] | Some a \<Rightarrow> snd a)))"

text \<open>
  \<^verbatim>\<open>TextExtractor.extract_text_from_pdf\<close> is a parameter: it gives the texts of the
  pages in page order, and the empty list when no backend could read the file (it
  catches the backends' exceptions itself).
\<close>

type_synonym extract_fn = "string \<Rightarrow> string list"

fun join_newline :: "string list \<Rightarrow> string" where
  "join_newline [] = []"
| "join_newline [t] = t"
| "join_newline (t # ts) = t @ [CHR 0x0A] @ join_newline ts"

definition perform_detection ::
  "findall_fn \<Rightarrow> extract_fn \<Rightarrow> (VendorType \<times> DetectionSignature list) list \<Rightarrow> PDFMetadata \<Rightarrow>
     py_error + DetectionResult" where
  "perform_detection findall extract all_signatures pdf_metadata =
     (let page_texts = extract (file_path pdf_metadata) in
      if page_texts = [] then DetectionResult_init UNKNOWN 0.0 None []
      else
        let full_text = join_newline page_texts;
            best = select_best (score_vendors findall full_text all_signatures)
        in DetectionResult_init (fst best) (fst (snd best)) None (snd (snd best)))"

text \<open>
  The detector object: its signature store and its cache of results, keyed by
  \<^verbatim>\<open>f"{file_path}:{file_hash}"\<close>.
\<close>

record VendorDetector =
  signatures :: "(VendorType \<times> DetectionSignature list) list"
  detection_cache :: "string \<rightharpoonup> DetectionResult"

text \<open>
  \<^verbatim>\<open>VendorDetector.detect_vendor\<close>. It returns the result and the detector with its
  cache updated, or the exception that escapes; no statement of it is inside a
  \<^verbatim>\<open>try\<close>.
\<close>

definition detect_vendor ::
  "findall_fn \<Rightarrow> extract_fn \<Rightarrow> VendorDetector \<Rightarrow> PDFMetadata \<Rightarrow> bool \<Rightarrow>
     py_error + (DetectionResult \<times> VendorDetector)" where
  "detect_vendor findall extract self pdf_metadata force_refresh =
     (let cache_key = file_path pdf_metadata @ '':'' @ file_hash pdf_metadata in
      case (if force_refresh then None else detection_cache self cache_key) of
        Some cached \<Rightarrow> Inr (cached, self)
      | None \<Rightarrow>
          if status pdf_metadata \<noteq> VALID then
            (case DetectionResult_init UNKNOWN 0.0 None [] of
               Inl e \<Rightarrow> Inl e
             | Inr result \<Rightarrow>
                 Inr (result, self\<lparr>detection_cache := (detection_cache self)(cache_key \<mapsto> result)\<rparr>))
          else
            (case perform_detection findall extract (signatures self) pdf_metadata of
               Inl e \<Rightarrow> Inl e
             | Inr result \<Rightarrow>
                 Inr (result, self\<lparr>detection_cache := (detection_cache self)(cache_key \<mapsto> result)\<rparr>)))"

subsection \<open>Sample detector inputs\<close>

text \<open>
  A stand-in for the regular-expression library on patterns that have no
  metacharacters: the occurrences of the pattern in the text.
\<close>

fun literal_findall :: "string \<Rightarrow> string \<Rightarrow> string list" where
  "literal_findall p [] = []"
| "literal_findall p (c # cs) =
     (if take (length p) (c # cs) = p then p # literal_findall p cs else literal_findall p cs)"

definition ex_sig_depo :: DetectionSignature where
  "ex_sig_depo = \<lparr>required_patterns = [''DEPO'', ''Lamp''],
                   optional_patterns = [''Taiwan'', ''ELEC''],
                   exclusion_patterns = [''YUTO'', ''HUSHAN'', ''China'', ''Korea''],
                   weight = 1.5\<rparr>"

definition ex_sig_generic :: DetectionSignature where
  "ex_sig_generic = \<lparr>required_patterns = [], optional_patterns = [''Part''],
                      exclusion_patterns = [], weight = 0.5\<rparr>"




definition ex_text_other :: string where
  "ex_text_other = ''DEPO mirror, made in Taiwan, ELEC''"

definition ex_sig_yuto :: DetectionSignature where
  "ex_sig_yuto = \<lparr>required_patterns = [''YUTO''], optional_patterns = [''China''],
                   exclusion_patterns = [''DEPO''], weight = 1.3\<rparr>"

text \<open>A detector as \<^verbatim>\<open>__init__\<close> leaves it: signatures loaded, cache empty.\<close>

definition ex_detector :: VendorDetector where
  "ex_detector = \<lparr>signatures = [(DEPO, [ex_sig_depo]), (YUTO, [ex_sig_yuto])],
                   detection_cache = Map.empty\<rparr>"

definition ex_extract :: extract_fn where
  "ex_extract path = (if path = ''a.pdf'' then [''no vendor named here''] else [])"

definition ex_pdf_valid :: PDFMetadata where
  "ex_pdf_valid = \<lparr>file_path = ''a.pdf'', file_hash = ''00ff'', status = VALID,
                    error_message = None\<rparr>"

definition ex_pdf_corrupted :: PDFMetadata where
  "ex_pdf_corrupted = \<lparr>file_path = ''b.pdf'', file_hash = ''12ab'', status = CORRUPTED,
                        error_message = Some ''PDF corrupted''\<rparr>"

section \<open>Properties\<close>

subsection \<open>Century rule\<close>

lemma convert_short_year_low: "Y \<le> 29 \<Longrightarrow> convert_short_year Y = 2000 + Y"
  by (simp add: convert_short_year_def)

lemma convert_short_year_high: "29 < Y \<Longrightarrow> convert_short_year Y = 1900 + Y"
  by (simp add: convert_short_year_def)

subsection \<open>Consolidation\<close>

lemma fold_max_ge: "(a::int) \<le> fold max xs a"
  by (induction xs arbitrary: a) (auto intro: order_trans [OF max.cobounded2])

lemma group_end_ge_hd: "end_year (hd g) \<le> group_end g"
  by (simp add: group_end_def fold_max_ge)

lemma group_end_snoc: "g \<noteq> [] \<Longrightarrow> group_end (g @ [r]) = max (end_year r) (group_end g)"
  by (cases g) (simp_all add: group_end_def)

lemma join_comma_snoc: "ts \<noteq> [] \<Longrightarrow> join_comma (ts @ [t]) = join_comma ts @ '', '' @ t"
  by (induction ts rule: join_comma.induct) simp_all

lemma merge_group_start: "start_year (spec_merge_group g) = start_year (hd g)"
  by (simp add: spec_merge_group_def)

lemma merge_group_end: "g \<noteq> [] \<Longrightarrow> end_year (spec_merge_group g) = group_end g"
  by (cases g) (auto simp: spec_merge_group_def group_end_def)

lemma merge_group_text:
  "g \<noteq> [] \<Longrightarrow> original_text (spec_merge_group g) = join_comma (map original_text g)"
  by (cases g) (auto simp: spec_merge_group_def)

lemma mk_YearRange_ordered:
  "s \<le> e \<Longrightarrow> mk_YearRange s e t f =
     \<lparr>start_year = s, end_year = e, original_text = t, format_detected = f\<rparr>"
  by (simp add: mk_YearRange_def)

lemma consolidate_step_merge:
  assumes "g \<noteq> []" and "start_year (hd g) \<le> end_year (hd g)"
    and "start_year r \<le> group_end g + 1"
  shows "consolidate_step (acc @ [spec_merge_group g]) r = acc @ [spec_merge_group (g @ [r])]"
proof -
  have le: "start_year (hd g) \<le> max (group_end g) (end_year r)"
    using assms(2) group_end_ge_hd [of g] by simp
  have len: "length (g @ [r]) \<noteq> 1" using assms(1) by (cases g) simp_all
  have hd: "hd (g @ [r]) = hd g" using assms(1) by simp
  have "consolidate_step (acc @ [spec_merge_group g]) r =
          acc @ [mk_YearRange (start_year (hd g)) (max (group_end g) (end_year r))
                   (join_comma (map original_text g) @ '', '' @ original_text r) RANGE_FULL]"
    using assms(1,3)
    by (simp add: consolidate_step_def merge_group_start merge_group_end merge_group_text)
  also have "\<dots> = acc @ [\<lparr>start_year = start_year (hd g),
      end_year = max (group_end g) (end_year r),
      original_text = join_comma (map original_text g) @ '', '' @ original_text r,
      format_detected = RANGE_FULL\<rparr>]"
    by (simp only: mk_YearRange_ordered [OF le])
  also have "\<dots> = acc @ [spec_merge_group (g @ [r])]"
    using assms(1) len
    by (simp add: spec_merge_group_def hd group_end_snoc join_comma_snoc max.commute)
  finally show ?thesis .
qed

lemma consolidate_step_keep:
  assumes "g \<noteq> []" and "\<not> start_year r \<le> group_end g + 1"
  shows "consolidate_step (acc @ [spec_merge_group g]) r
         = (acc @ [spec_merge_group g]) @ [spec_merge_group [r]]"
  using assms by (simp add: consolidate_step_def merge_group_end spec_merge_group_def [of "[r]"])

lemma foldl_consolidate_groups:
  "g \<noteq> [] \<Longrightarrow> start_year (hd g) \<le> end_year (hd g) \<Longrightarrow>
   \<forall>r\<in>set rs. start_year r \<le> end_year r \<Longrightarrow>
   foldl consolidate_step (acc @ [spec_merge_group g]) rs
     = acc @ map spec_merge_group (spec_groups g rs)"
proof (induction rs arbitrary: g acc)
  case Nil
  then show ?case by simp
next
  case (Cons r rs)
  show ?case
  proof (cases "start_year r \<le> group_end g + 1")
    case True
    have "foldl consolidate_step (acc @ [spec_merge_group (g @ [r])]) rs
          = acc @ map spec_merge_group (spec_groups (g @ [r]) rs)"
      using Cons.prems by (intro Cons.IH) simp_all
    then show ?thesis
      using True Cons.prems by (simp add: consolidate_step_merge)
  next
    case False
    have "foldl consolidate_step ((acc @ [spec_merge_group g]) @ [spec_merge_group [r]]) rs
          = (acc @ [spec_merge_group g]) @ map spec_merge_group (spec_groups [r] rs)"
      using Cons.prems by (intro Cons.IH) simp_all
    then show ?thesis
      using False Cons.prems by (simp add: consolidate_step_keep)
  qed
qed

text \<open>
  Claim C8. On ranges that satisfy the class invariant (start at most end),
  \<open>consolidate_ranges\<close> sorts by start year (stably) and merges a range into the
  one before it exactly when its start is at most that one's end plus one; a merged
  range carries the texts of its inputs joined by a comma and the format \<open>RANGE_FULL\<close>,
  whatever the formats of its inputs were, and a range that merged with nothing is
  returned as it came.
\<close>

theorem consolidate_ranges_spec:
  assumes "\<forall>r\<in>set ranges. start_year r \<le> end_year r"
  shows "consolidate_ranges ranges = spec_consolidate ranges"
proof (cases "sort_key start_year ranges")
  case Nil
  then show ?thesis by (simp add: consolidate_ranges_def spec_consolidate_def)
next
  case (Cons first others)
  have "set (first # others) = set ranges"
    using Cons [symmetric] by simp
  then have wf: "start_year first \<le> end_year first" "\<forall>r\<in>set others. start_year r \<le> end_year r"
    using assms by auto
  have ne: "ranges \<noteq> []" using Cons by auto
  have one: "spec_merge_group [first] = first" by (simp add: spec_merge_group_def)
  have "foldl consolidate_step ([] @ [spec_merge_group [first]]) others
        = [] @ map spec_merge_group (spec_groups [first] others)"
    using wf by (intro foldl_consolidate_groups) simp_all
  then show ?thesis
    using Cons ne one by (simp add: consolidate_ranges_def spec_consolidate_def)
qed

theorem consolidate_ranges_spec_witness:
  "consolidate_ranges ex_adjacent =
     [\<lparr>start_year = 2010, end_year = 2015, original_text = ''2010-2012, 2013-2015'', format_detected = RANGE_FULL\<rparr>,
      \<lparr>start_year = 2017, end_year = 2018, original_text = ''17-18'', format_detected = RANGE_SHORT\<rparr>,
      \<lparr>start_year = 2020, end_year = 2022, original_text = ''2020-2022'', format_detected = FULL_YEAR\<rparr>]"
proof -
  have h: "\<forall>r\<in>set ex_adjacent. start_year r \<le> end_year r"
    by (simp add: ex_adjacent_def)
  have "spec_consolidate ex_adjacent =
     [\<lparr>start_year = 2010, end_year = 2015, original_text = ''2010-2012, 2013-2015'', format_detected = RANGE_FULL\<rparr>,
      \<lparr>start_year = 2017, end_year = 2018, original_text = ''17-18'', format_detected = RANGE_SHORT\<rparr>,
      \<lparr>start_year = 2020, end_year = 2022, original_text = ''2020-2022'', format_detected = FULL_YEAR\<rparr>]"
    by (simp add: ex_adjacent_def spec_consolidate_def spec_merge_group_def group_end_def)
  then show ?thesis using consolidate_ranges_spec [OF h] by simp
qed

subsection \<open>Two-digit tokens\<close>

lemma is_digit_facts:
  assumes "is_digit c"
  shows "\<not> is_space c" "\<not> is_int_space c" "c \<noteq> CHR 0x27" "c \<noteq> CHR ''-''" "c \<noteq> CHR ''+''"
    "c \<noteq> CHR ''_''" "0 \<le> digit_value c" "digit_value c \<le> 9"
  using assms
  by (auto simp: is_digit_def is_space_def is_int_space_def digit_value_def Let_def)

lemma strip_two_digits: "is_digit a \<Longrightarrow> is_digit b \<Longrightarrow> strip [a, b] = [a, b]"
  by (simp add: strip_def is_digit_facts)

lemma py_int_two_digits:
  assumes "is_digit a" "is_digit b"
  shows "py_int [a, b] = Inr (two_digits a b)"
  using assms
  by (simp add: py_int_def is_digit_facts digits_value_def two_digits_def Let_def)

lemma two_digits_range: "is_digit a \<Longrightarrow> is_digit b \<Longrightarrow> 0 \<le> two_digits a b \<and> two_digits a b \<le> 99"
  using is_digit_facts(7,8) [of a] is_digit_facts(7,8) [of b]
  by (simp add: two_digits_def)

lemma parse_single_year_two_digits:
  assumes "is_digit a" "is_digit b"
  shows "parse_single_year now [a, b] =
           Inr (if is_valid_automotive_year now (convert_short_year (two_digits a b))
                then Some (convert_short_year (two_digits a b)) else None)"
  using assms two_digits_range [OF assms]
  by (simp add: parse_single_year_def strip_two_digits drop_apostrophes_def is_digit_facts
        py_int_two_digits Let_def)

lemma parse_single_year_apostrophe:
  assumes "is_digit a" "is_digit b"
  shows "parse_single_year now [CHR 0x27, a, b] = parse_single_year now [a, b]"
proof -
  have "\<not> is_space (CHR 0x27)" by (simp add: is_space_def)
  then have "strip [CHR 0x27, a, b] = [CHR 0x27, a, b]"
    using assms by (simp add: strip_def is_digit_facts)
  then show ?thesis
    using assms
    by (simp add: parse_single_year_def strip_two_digits drop_apostrophes_def is_digit_facts)
qed

subsection \<open>Format detection\<close>

text \<open>
  Claim C7. \<open>detect_year_format\<close> answers with the first format, in the order
  RANGE\_FULL, RANGE\_MIXED, RANGE\_SHORT, LIST\_MIXED, FULL\_YEAR, SHORT\_YEAR, whose
  pattern matches the stripped text, and with INVALID when none matches. A text that
  the full-range pattern matches is RANGE\_FULL whatever the other patterns do.
\<close>

theorem detect_year_format_precedence:
  "detect_year_format eng text = spec_detect_format eng text
   \<and> (re_search eng pat_range_full (strip text) \<noteq> None \<longrightarrow>
        detect_year_format eng text = RANGE_FULL)
   \<and> ((\<forall>pf\<in>set format_precedence. re_search eng (fst pf) (strip text) = None) \<longrightarrow>
        detect_year_format eng text = INVALID)"
  by (simp add: detect_year_format_def spec_detect_format_def format_precedence_def Let_def)

theorem detect_year_format_precedence_witness:
  "re_search py_re pat_range_mixed (strip ''  2010-2015 '') \<noteq> None
   \<and> re_search py_re pat_full_single (strip ''  2010-2015 '') \<noteq> None
   \<and> re_search py_re pat_short_single (strip ''  2010-2015 '') \<noteq> None
   \<and> detect_year_format py_re ''  2010-2015 '' = RANGE_FULL
   \<and> detect_year_format py_re ''abc-def'' = INVALID"
proof -
  have full: "re_search py_re pat_range_full (strip ''  2010-2015 '') \<noteq> None"
    by code_simp
  have others: "re_search py_re pat_range_mixed (strip ''  2010-2015 '') \<noteq> None"
    "re_search py_re pat_full_single (strip ''  2010-2015 '') \<noteq> None"
    "re_search py_re pat_short_single (strip ''  2010-2015 '') \<noteq> None"
    by code_simp+
  have none: "\<forall>pf\<in>set format_precedence. re_search py_re (fst pf) (strip ''abc-def'') = None"
    by code_simp
  have a: "detect_year_format py_re ''  2010-2015 '' = RANGE_FULL"
    using detect_year_format_precedence [of py_re "''  2010-2015 ''", THEN conjunct2,
            THEN conjunct1] full
    by (rule mp)
  have b: "detect_year_format py_re ''abc-def'' = INVALID"
    using detect_year_format_precedence [of py_re "''abc-def''", THEN conjunct2,
            THEN conjunct2] none
    by (rule mp)
  show ?thesis using others a b by (intro conjI)
qed

subsection \<open>Parsing and extraction never raise\<close>

lemma py_int_error: "py_int t = Inl e \<Longrightarrow> e = ValueError"
  by (auto simp: py_int_def Let_def split: if_splits)

lemma parse_single_year_total: "\<exists>y. parse_single_year now t = Inr y"
proof (cases "py_int (drop_apostrophes (strip t))")
  case (Inl e)
  then have "e = ValueError" by (rule py_int_error)
  with Inl show ?thesis by (simp add: parse_single_year_def)
next
  case (Inr n)
  then show ?thesis by (simp add: parse_single_year_def Let_def)
qed

lemma parse_single_year_valid:
  "parse_single_year now t = Inr (Some y) \<Longrightarrow> is_valid_automotive_year now y"
  by (auto simp: parse_single_year_def Let_def split: sum.splits py_error.splits if_splits)

lemma parse_single_year_rejects:
  assumes "py_int (drop_apostrophes (strip t)) = Inr n"
    and "\<not> is_valid_automotive_year now (if 0 \<le> n \<and> n \<le> 99 then convert_short_year n else n)"
  shows "parse_single_year now t = Inr None"
  using assms by (simp add: parse_single_year_def Let_def)

lemma valid_mk_YearRange:
  "is_valid_automotive_year now s \<Longrightarrow> is_valid_automotive_year now e \<Longrightarrow>
   valid_range now (mk_YearRange s e t f)"
  by (simp add: valid_range_def mk_YearRange_def)

lemma parse_year_range_total:
  "\<exists>r. parse_year_range now s e orig = Inr r \<and> (\<forall>yr. r = Some yr \<longrightarrow> valid_range now yr)"
proof -
  obtain a where a: "parse_single_year now s = Inr a" using parse_single_year_total by blast
  obtain b where b: "parse_single_year now e = Inr b" using parse_single_year_total by blast
  show ?thesis
  proof (cases a)
    case None
    then show ?thesis using a b by (simp add: parse_year_range_def)
  next
    case (Some x)
    note sa = this
    show ?thesis
    proof (cases b)
      case None
      then show ?thesis using a b sa by (simp add: parse_year_range_def)
    next
      case (Some y)
      have "is_valid_automotive_year now x" "is_valid_automotive_year now y"
        using a b sa Some parse_single_year_valid by blast+
      then show ?thesis
        using a b sa Some by (simp add: parse_year_range_def valid_mk_YearRange)
    qed
  qed
qed

lemma parse_parts_total:
  "list_all (valid_range now) ranges \<Longrightarrow>
   \<exists>rs. parse_parts now parts ranges = Inr rs \<and> list_all (valid_range now) rs"
proof (induction parts arbitrary: ranges)
  case Nil
  then show ?case by simp
next
  case (Cons part parts)
  obtain a where a: "parse_single_year now part = Inr a" using parse_single_year_total by blast
  show ?case
  proof (cases a)
    case None
    then show ?thesis using a Cons by simp
  next
    case (Some y)
    have "is_valid_automotive_year now y" using a Some parse_single_year_valid by blast
    then have "list_all (valid_range now)
                 (ranges @ [mk_YearRange y y part
                    (if length (drop_apostrophes part) = 4 then FULL_YEAR else SHORT_YEAR)])"
      using Cons.prems by (simp add: valid_mk_YearRange)
    from Cons.IH [OF this] show ?thesis using a Some Cons.IH [OF Cons.prems] by simp
  qed
qed

lemma single_years_total:
  "list_all (valid_range now) ranges \<Longrightarrow>
   \<exists>rs. single_years now f ms ranges = Inr rs \<and> list_all (valid_range now) rs"
proof (induction ms arbitrary: ranges)
  case Nil
  then show ?case by simp
next
  case (Cons m ms)
  obtain a where a: "parse_single_year now m = Inr a" using parse_single_year_total by blast
  show ?case
  proof (cases a)
    case None
    then show ?thesis using a Cons by simp
  next
    case (Some y)
    have "is_valid_automotive_year now y" using a Some parse_single_year_valid by blast
    then have "list_all (valid_range now) (ranges @ [mk_YearRange y y m f])"
      using Cons.prems by (simp add: valid_mk_YearRange)
    from Cons.IH [OF this] show ?thesis using a Some by simp
  qed
qed

lemma ngroups_range_patterns:
  "ngroups (tree pat_range_full) = 2" "ngroups (tree pat_range_short) = 2"
  "ngroups (tree pat_range_mixed) = 2"
  by (simp_all add: pat_range_full_def pat_range_short_def pat_range_mixed_def seq_def word_def
        year4_def digit09_def range_sep_def apostrophe_opt_def)

lemma range_branch_total:
  assumes "engine_ok eng" and "ngroups (tree p) = 2" and "list_all (valid_range now) ranges"
  shows "\<exists>rs. range_branch eng now p text ranges = Inr rs \<and> list_all (valid_range now) rs"
proof (cases "re_search eng p text")
  case None
  then show ?thesis using assms(3) by (simp add: range_branch_def)
next
  case (Some m)
  then have len: "length (groups m) = 2" using assms(1,2) by (simp add: engine_ok_def)
  obtain r where r: "parse_year_range now (groups m ! 0) (groups m ! 1) (group0 m) = Inr r"
    "\<forall>yr. r = Some yr \<longrightarrow> valid_range now yr"
    using parse_year_range_total by blast
  show ?thesis
    using Some len r assms(3)
    by (cases r) (simp_all add: range_branch_def group_def)
qed

lemma scan_text_total:
  assumes "engine_ok eng" and "list_all (valid_range now) ranges"
  shows "\<exists>rs. scan_text eng now text ranges = Inr rs \<and> list_all (valid_range now) rs"
proof (cases "detect_year_format eng text")
  case LIST_MIXED
  show ?thesis
  proof (cases "re_search eng pat_list_comma text")
    case None
    then show ?thesis using LIST_MIXED assms(2) by (simp add: scan_text_def)
  next
    case (Some m)
    obtain rs where "parse_year_list now (group0 m) = Inr rs" "list_all (valid_range now) rs"
      using parse_parts_total [of now "[]"] by (auto simp: parse_year_list_def)
    then show ?thesis using LIST_MIXED Some assms(2) by (simp add: scan_text_def group_def)
  qed
qed (use assms range_branch_total ngroups_range_patterns single_years_total
      in \<open>simp_all add: scan_text_def\<close>)


lemma new_list_simps:
  "fst (new_list xs w) = next_ref w"
  "next_ref (snd (new_list xs w)) = Suc (next_ref w)"
  "cache (snd (new_list xs w)) = cache w"
  "lists (snd (new_list xs w)) = (lists w)(next_ref w := xs)"
  by (simp_all add: new_list_def)

lemma store_and_copy_simps:
  "fst (store_and_copy key xs w) = Suc (next_ref w)"
  "next_ref (snd (store_and_copy key xs w)) = Suc (Suc (next_ref w))"
  "cache (snd (store_and_copy key xs w)) = (cache w)(key \<mapsto> next_ref w)"
  "lists (snd (store_and_copy key xs w)) = (lists w)(next_ref w := xs, Suc (next_ref w) := xs)"
  by (simp_all add: store_and_copy_def new_list_def Let_def split_def)

lemma new_list_cache_valid:
  "cache_valid now w \<Longrightarrow> list_all (valid_range now) xs \<Longrightarrow>
   cache_valid now (snd (new_list xs w))"
  by (simp add: cache_valid_def new_list_simps)

lemma store_and_copy_cache_valid:
  "cache_valid now w \<Longrightarrow> list_all (valid_range now) xs \<Longrightarrow>
   cache_valid now (snd (store_and_copy key xs w))"
  by (simp add: cache_valid_def store_and_copy_simps)

lemma store_and_copy_result:
  "lists (snd (store_and_copy key xs w)) (fst (store_and_copy key xs w)) = xs"
  by (simp add: store_and_copy_simps)

lemma extract_plain_total:
  assumes "engine_ok eng" and "cache_valid now w"
  shows "\<exists>r w'. extract_plain eng now t w = Inr (r, w') \<and> cache_valid now w'
           \<and> list_all (valid_range now) (lists w' r)
           \<and> (strip t = [] \<longrightarrow> lists w' r = [] \<and> cache w' = cache w)"
proof (cases "t = [] \<or> strip t = []")
  case True
  have "extract_plain eng now t w = Inr (fst (new_list [] w), snd (new_list [] w))"
    using True by (simp add: extract_plain_def)
  moreover have "cache_valid now (snd (new_list [] w))"
    using assms(2) by (simp add: new_list_cache_valid)
  ultimately show ?thesis by (simp add: new_list_simps)
next
  case False
  show ?thesis
  proof (cases "cache w (cache_key_of t None)")
    case (Some rc)
    have v: "list_all (valid_range now) (lists w rc)"
      using assms(2) Some by (auto simp: cache_valid_def)
    have "extract_plain eng now t w
            = Inr (fst (new_list (lists w rc) w), snd (new_list (lists w rc) w))"
      using False Some by (simp add: extract_plain_def)
    moreover have "cache_valid now (snd (new_list (lists w rc) w))"
      using assms(2) v by (simp add: new_list_cache_valid)
    ultimately show ?thesis using False v by (simp add: new_list_simps)
  next
    case None
    obtain rs where rs: "scan_text eng now (strip t) [] = Inr rs" "list_all (valid_range now) rs"
      using scan_text_total [OF assms(1), of now "[]"] by auto
    obtain r w' where p: "store_and_copy (cache_key_of t None) rs w = (r, w')"
      by (cases "store_and_copy (cache_key_of t None) rs w")
    have "extract_plain eng now t w = Inr (r, w')"
      using False None rs p by (simp add: extract_plain_def)
    moreover have "cache_valid now w'"
      using store_and_copy_cache_valid [OF assms(2) rs(2), of "cache_key_of t None"]
      by (simp add: p)
    moreover have "list_all (valid_range now) (lists w' r)"
      using store_and_copy_result [of "cache_key_of t None" rs w] rs(2) by (simp add: p)
    ultimately show ?thesis using False by simp
  qed
qed

lemma extend_from_matches_total:
  assumes "engine_ok eng"
  shows "cache_valid now w \<Longrightarrow> list_all (valid_range now) rs \<Longrightarrow>
         \<exists>rs' w'. extend_from_matches eng now ms rs w = Inr (rs', w') \<and> cache_valid now w'
            \<and> list_all (valid_range now) rs'"
proof (induction ms arbitrary: rs w)
  case Nil
  then show ?case by simp
next
  case (Cons m ms)
  obtain r w1 where p: "extract_plain eng now m w = Inr (r, w1)" "cache_valid now w1"
    "list_all (valid_range now) (lists w1 r)"
    using extract_plain_total [OF assms Cons.prems(1)] by blast
  have "list_all (valid_range now) (rs @ lists w1 r)"
    using Cons.prems(2) p(3) by simp
  from Cons.IH [OF p(2) this] show ?case using p(1) by simp
qed

lemma extract_years_total:
  assumes "engine_ok eng" and "cache_valid now w"
  shows "\<exists>r w'. extract_years_from_text eng now t h w = Inr (r, w') \<and> cache_valid now w'
           \<and> list_all (valid_range now) (lists w' r)
           \<and> (strip t = [] \<longrightarrow> lists w' r = [] \<and> cache w' = cache w)"
proof (cases "t = [] \<or> strip t = []")
  case True
  have "extract_years_from_text eng now t h w = Inr (fst (new_list [] w), snd (new_list [] w))"
    using True by (simp add: extract_years_from_text_def)
  moreover have "cache_valid now (snd (new_list [] w))"
    using assms(2) by (simp add: new_list_cache_valid)
  ultimately show ?thesis by (simp add: new_list_simps)
next
  case False
  show ?thesis
  proof (cases "cache w (cache_key_of t h)")
    case (Some rc)
    have v: "list_all (valid_range now) (lists w rc)"
      using assms(2) Some by (auto simp: cache_valid_def)
    have "extract_years_from_text eng now t h w
            = Inr (fst (new_list (lists w rc) w), snd (new_list (lists w rc) w))"
      using False Some by (simp add: extract_years_from_text_def)
    moreover have "cache_valid now (snd (new_list (lists w rc) w))"
      using assms(2) v by (simp add: new_list_cache_valid)
    ultimately show ?thesis using False v by (simp add: new_list_simps)
  next
    case None
    let ?vendor = "case h of
                     None \<Rightarrow> Inr ([], w)
                   | Some v \<Rightarrow>
                       if v = [] then Inr ([], w)
                       else (case map_of PATTERNS (lower v @ ''_format'') of
                               None \<Rightarrow> Inr ([], w)
                             | Some p \<Rightarrow>
                                 extend_from_matches eng now (re_findall eng p (strip t)) [] w)"
    have "\<exists>rs w1. ?vendor = Inr (rs, w1) \<and> cache_valid now w1 \<and> list_all (valid_range now) rs"
      using assms(2) extend_from_matches_total [OF assms(1) assms(2), of "[]"]
      by (auto split: option.splits)
    then obtain rs w1 where vd: "?vendor = Inr (rs, w1)" "cache_valid now w1"
      "list_all (valid_range now) rs" by blast
    obtain rs2 where sc: "scan_text eng now (strip t) rs = Inr rs2"
      "list_all (valid_range now) rs2"
      using scan_text_total [OF assms(1) vd(3)] by blast
    let ?xs = "if rs \<noteq> [] then rs else rs2"
    obtain r w' where p: "store_and_copy (cache_key_of t h) ?xs w1 = (r, w')"
      by (cases "store_and_copy (cache_key_of t h) ?xs w1")
    have eq: "extract_years_from_text eng now t h w = Inr (r, w')"
      using False None vd(1) sc(1) p
      by (cases "rs = []") (simp_all add: extract_years_from_text_def Let_def)
    have xs: "list_all (valid_range now) ?xs" using vd(3) sc(2) by simp
    have "cache_valid now w'"
      using store_and_copy_cache_valid [OF vd(2) xs, of "cache_key_of t h"] by (simp add: p)
    moreover have "list_all (valid_range now) (lists w' r)"
      using store_and_copy_result [of "cache_key_of t h" ?xs w1] xs by (simp add: p)
    ultimately show ?thesis using eq False by auto
  qed
qed


lemma match_here_groups:
  "match_here p b t = Some mr \<Longrightarrow> length (groups (fst mr)) = ngroups (tree p)"
  by (auto simp: match_here_def split: list.splits)

lemma search_from_groups:
  "search_from p b t = Some m \<Longrightarrow> length (groups m) = ngroups (tree p)"
proof (induction t arbitrary: b)
  case Nil
  then show ?case by (auto dest: match_here_groups)
next
  case (Cons c cs)
  then show ?case by (auto dest: match_here_groups split: option.splits)
qed

lemma engine_ok_py_re: "engine_ok py_re"
  by (auto simp: engine_ok_def py_re_def dest: search_from_groups)

lemma cache_valid_new_world: "cache_valid now new_world"
  by (simp add: cache_valid_def new_world_def)

text \<open>
  The inner call of the vendor loop is the function itself without a vendor.
\<close>

lemma extract_plain_is_call_without_vendor:
  "extract_years_from_text eng now t None w = extract_plain eng now t w"
proof (cases "t = [] \<or> strip t = []")
  case True
  then show ?thesis by (simp add: extract_years_from_text_def extract_plain_def)
next
  case False
  show ?thesis
  proof (cases "cache w (cache_key_of t None)")
    case (Some rc)
    then show ?thesis using False by (simp add: extract_years_from_text_def extract_plain_def)
  next
    case None
    then show ?thesis
      using False
      by (cases "scan_text eng now (strip t) []")
         (simp_all add: extract_years_from_text_def extract_plain_def)
  qed
qed

subsection \<open>What the tokens of a text give\<close>

lemma parse_single_year_eq: "parse_single_year now tok = Inr (token_year now tok)"
proof (cases "py_int (drop_apostrophes (strip tok))")
  case (Inl e)
  then have "e = ValueError" by (rule py_int_error)
  with Inl show ?thesis by (simp add: parse_single_year_def token_year_def)
next
  case (Inr n)
  then show ?thesis by (simp add: parse_single_year_def token_year_def Let_def)
qed


lemma token_year_rejects:
  assumes "py_int (drop_apostrophes (strip tok)) = Inr n"
    and "\<not> is_valid_automotive_year now (if 0 \<le> n \<and> n \<le> 99 then convert_short_year n else n)"
  shows "token_year now tok = None"
  using assms by (simp add: token_year_def Let_def)

lemma token_year_valid: "token_year now tok = Some y \<Longrightarrow> is_valid_automotive_year now y"
  by (auto simp: token_year_def Let_def split: sum.splits if_splits)

lemma map_filter_Cons_None: "f x = None \<Longrightarrow> List.map_filter f (x # xs) = List.map_filter f xs"
  by (simp add: List.map_filter_def)

lemma map_filter_Cons_Some: "f x = Some y \<Longrightarrow> List.map_filter f (x # xs) = y # List.map_filter f xs"
  by (simp add: List.map_filter_def)

lemma single_years_eq:
  "single_years now f toks ranges = Inr (ranges @ single_year_ranges now f toks)"
proof (induction toks arbitrary: ranges)
  case Nil
  then show ?case by (simp add: single_year_ranges_def List.map_filter_def)
next
  case (Cons tok toks)
  show ?case
  proof (cases "token_year now tok")
    case None
    then show ?thesis
      using Cons.IH [of ranges]
      by (simp add: parse_single_year_eq single_year_ranges_def map_filter_Cons_None)
  next
    case (Some y)
    then show ?thesis
      using Cons.IH [of "ranges @ [mk_YearRange y y tok f]"]
      by (simp add: parse_single_year_eq single_year_ranges_def map_filter_Cons_Some)
  qed
qed

lemma parse_parts_eq:
  "parse_parts now parts ranges = Inr (ranges @ list_ranges_of now parts)"
proof (induction parts arbitrary: ranges)
  case Nil
  then show ?case by (simp add: list_ranges_of_def List.map_filter_def)
next
  case (Cons part parts)
  show ?case
  proof (cases "part = []")
    case True
    then show ?thesis
      using Cons.IH [of ranges] by (simp add: list_ranges_of_def map_filter_Cons_None)
  next
    case False
    show ?thesis
    proof (cases "token_year now part")
      case None
      then show ?thesis
        using False Cons.IH [of ranges]
        by (simp add: parse_single_year_eq list_ranges_of_def map_filter_Cons_None)
    next
      case (Some y)
      then show ?thesis
        using False
          Cons.IH [of "ranges @ [mk_YearRange y y part
             (if length (drop_apostrophes part) = 4 then FULL_YEAR else SHORT_YEAR)]"]
        by (simp add: parse_single_year_eq list_ranges_of_def map_filter_Cons_Some)
    qed
  qed
qed

lemma parse_year_list_eq:
  "parse_year_list now text = Inr (list_ranges_of now (map strip (split_commas text)))"
  by (simp add: parse_year_list_def parse_parts_eq)

lemma parse_year_range_eq:
  "parse_year_range now s e original =
     Inr (case pair_ranges now s e original of [] \<Rightarrow> None | r # _ \<Rightarrow> Some r)"
  by (simp add: parse_year_range_def parse_single_year_eq pair_ranges_def range_format_def
           split: option.splits)

lemma range_branch_eq:
  assumes "engine_ok eng" and "ngroups (tree p) = 2"
  shows "range_branch eng now p text ranges =
           Inr (case re_search eng p text of
                  None \<Rightarrow> ranges
                | Some m \<Rightarrow>
                    ranges @ pair_ranges now (groups m ! 0) (groups m ! 1) (group0 m))"
proof (cases "re_search eng p text")
  case None
  then show ?thesis by (simp add: range_branch_def)
next
  case (Some m)
  then have len: "length (groups m) = 2" using assms by (simp add: engine_ok_def)
  show ?thesis
    using Some len
    by (simp add: range_branch_def group_def parse_year_range_eq pair_ranges_def
             split: option.splits)
qed


lemma scan_text_eq:
  assumes "engine_ok eng"
  shows "scan_text eng now text ranges = Inr (ranges @ text_ranges eng now text)"
proof (cases "detect_year_format eng text")
  case LIST_MIXED
  then show ?thesis
    by (simp add: scan_text_def text_ranges_def group_def parse_year_list_eq split: option.splits)
qed (simp_all add: scan_text_def text_ranges_def range_tokens_def single_years_eq
       range_branch_eq [OF assms] ngroups_range_patterns split: option.splits)

lemma map_filter_append:
  "List.map_filter f (xs @ ys) = List.map_filter f xs @ List.map_filter f ys"
  by (simp add: List.map_filter_def)



lemma extract_plain_miss:
  assumes "engine_ok eng" and "t \<noteq> []" and "strip t \<noteq> []"
    and "cache w (cache_key_of t None) = None"
  shows "returned (extract_years_from_text eng now t None w)
           = Inr (text_ranges eng now (strip t))"
proof -
  have "extract_years_from_text eng now t None w
          = Inr (store_and_copy (cache_key_of t None) (text_ranges eng now (strip t)) w)"
    using assms(2-4)
    by (simp add: extract_plain_is_call_without_vendor extract_plain_def
          scan_text_eq [OF assms(1)])
  then show ?thesis by (simp add: returned_def store_and_copy_result)
qed

subsection \<open>The cache and the lists it holds\<close>

lemma grows_refl: "grows w w"
  by (simp add: grows_def)

lemma grows_trans:
  assumes "grows a b" and "grows b c"
  shows "grows a c"
  unfolding grows_def
proof (intro conjI allI impI)
  show "next_ref a \<le> next_ref c" using assms by (simp add: grows_def)
  show "lists c r = lists a r" if "r < next_ref a" for r
    using assms that by (simp add: grows_def)
  show "cache c k = Some r" if "cache a k = Some r" for k r
    using assms that by (simp add: grows_def)
  show "cache a k = Some r \<or> next_ref a \<le> r \<and> r < next_ref c" if c: "cache c k = Some r" for k r
  proof -
    from assms(2) c have "cache b k = Some r \<or> next_ref b \<le> r \<and> r < next_ref c"
      by (simp add: grows_def)
    then show ?thesis
    proof
      assume "cache b k = Some r"
      with assms(1) have "cache a k = Some r \<or> next_ref a \<le> r \<and> r < next_ref b"
        by (simp add: grows_def)
      moreover have "next_ref b \<le> next_ref c" using assms(2) by (simp add: grows_def)
      ultimately show ?thesis by auto
    next
      assume "next_ref b \<le> r \<and> r < next_ref c"
      moreover have "next_ref a \<le> next_ref b" using assms(1) by (simp add: grows_def)
      ultimately show ?thesis by auto
    qed
  qed
qed

lemma new_list_grows: "grows w (snd (new_list xs w))"
  by (simp add: grows_def new_list_simps)

lemma store_and_copy_grows:
  assumes "grows w w'" and "cache w key = None"
  shows "grows w (snd (store_and_copy key xs w'))"
  unfolding grows_def
proof (intro conjI allI impI)
  have le: "next_ref w \<le> next_ref w'" using assms(1) by (simp add: grows_def)
  show "next_ref w \<le> next_ref (snd (store_and_copy key xs w'))"
    using le by (simp add: store_and_copy_simps)
  show "lists (snd (store_and_copy key xs w')) r = lists w r" if "r < next_ref w" for r
    using that le assms(1) by (simp add: store_and_copy_simps grows_def)
  show "cache (snd (store_and_copy key xs w')) k = Some r" if "cache w k = Some r" for k r
  proof -
    have "k \<noteq> key" using that assms(2) by auto
    moreover have "cache w' k = Some r" using that assms(1) by (simp add: grows_def)
    ultimately show ?thesis by (simp add: store_and_copy_simps)
  qed
  show "cache w k = Some r \<or> next_ref w \<le> r \<and> r < next_ref (snd (store_and_copy key xs w'))"
    if c: "cache (snd (store_and_copy key xs w')) k = Some r" for k r
  proof (cases "k = key")
    case True
    then have "r = next_ref w'" using c by (simp add: store_and_copy_simps)
    then show ?thesis using le by (simp add: store_and_copy_simps)
  next
    case False
    then have "cache w' k = Some r" using c by (simp add: store_and_copy_simps)
    then have "cache w k = Some r \<or> next_ref w \<le> r \<and> r < next_ref w'"
      using assms(1) by (simp add: grows_def)
    then show ?thesis by (auto simp: store_and_copy_simps)
  qed
qed

lemma grows_refs_allocated: "grows w w' \<Longrightarrow> refs_allocated w \<Longrightarrow> refs_allocated w'"
  unfolding grows_def refs_allocated_def by (metis less_le_trans)

lemma extract_plain_grows:
  assumes "extract_plain eng now t w = Inr (r, w')"
  shows "grows w w'"
proof (cases "t = [] \<or> strip t = []")
  case True
  then have "w' = snd (new_list [] w)" using assms by (auto simp: extract_plain_def)
  then show ?thesis by (simp add: new_list_grows)
next
  case False
  show ?thesis
  proof (cases "cache w (cache_key_of t None)")
    case (Some rc)
    then have "w' = snd (new_list (lists w rc) w)"
      using assms False by (auto simp: extract_plain_def)
    then show ?thesis by (simp add: new_list_grows)
  next
    case None
    then obtain rs where "store_and_copy (cache_key_of t None) rs w = (r, w')"
      using assms False by (auto simp: extract_plain_def split: sum.splits)
    then have "w' = snd (store_and_copy (cache_key_of t None) rs w)" by simp
    then show ?thesis using store_and_copy_grows [OF grows_refl None] by simp
  qed
qed

lemma extend_from_matches_grows:
  "extend_from_matches eng now ms rs w = Inr (rs', w') \<Longrightarrow> grows w w'"
proof (induction ms arbitrary: rs w)
  case Nil
  then show ?case by (simp add: grows_refl)
next
  case (Cons m ms)
  then obtain r w1 where p: "extract_plain eng now m w = Inr (r, w1)"
    and q: "extend_from_matches eng now ms (rs @ lists w1 r) w1 = Inr (rs', w')"
    by (auto split: sum.splits)
  from extract_plain_grows [OF p] Cons.IH [OF q] show ?case by (rule grows_trans)
qed

text \<open>The three ways in which a call can return.\<close>

lemma extract_years_cases:
  assumes "extract_years_from_text eng now t h w = Inr (r1, w1)"
  obtains (blank) "t = [] \<or> strip t = []" "new_list [] w = (r1, w1)"
  | (hit) rc where "t \<noteq> []" "strip t \<noteq> []" "cache w (cache_key_of t h) = Some rc"
      "new_list (lists w rc) w = (r1, w1)"
  | (miss) xs w' where "t \<noteq> []" "strip t \<noteq> []" "cache w (cache_key_of t h) = None"
      "grows w w'" "store_and_copy (cache_key_of t h) xs w' = (r1, w1)"
proof (cases "t = [] \<or> strip t = []")
  case True
  then have "new_list [] w = (r1, w1)" using assms by (auto simp: extract_years_from_text_def)
  with True show ?thesis by (rule blank)
next
  case False
  show ?thesis
  proof (cases "cache w (cache_key_of t h)")
    case (Some rc)
    then have "new_list (lists w rc) w = (r1, w1)"
      using assms False by (auto simp: extract_years_from_text_def)
    with False Some show ?thesis by (intro hit) simp_all
  next
    case None
    let ?vendor = "case h of
                     None \<Rightarrow> Inr ([], w)
                   | Some v \<Rightarrow>
                       if v = [] then Inr ([], w)
                       else (case map_of PATTERNS (lower v @ ''_format'') of
                               None \<Rightarrow> Inr ([], w)
                             | Some p \<Rightarrow>
                                 extend_from_matches eng now (re_findall eng p (strip t)) [] w)"
    from assms False None obtain rs w' where vd: "?vendor = Inr (rs, w')"
      by (auto simp: extract_years_from_text_def Let_def split: sum.splits)
    have g: "grows w w'"
      using vd by (auto simp: grows_refl split: option.splits if_splits
                        dest: extend_from_matches_grows)
    have "\<exists>xs. store_and_copy (cache_key_of t h) xs w' = (r1, w1)"
    proof (cases "rs = []")
      case True
      then obtain rs2 where "scan_text eng now (strip t) rs = Inr rs2"
        "store_and_copy (cache_key_of t h) rs2 w' = (r1, w1)"
        using assms False None vd
        by (auto simp: extract_years_from_text_def Let_def split: sum.splits)
      then show ?thesis by blast
    next
      case nonempty: False
      then have "store_and_copy (cache_key_of t h) rs w' = (r1, w1)"
        using assms False None vd
        by (auto simp: extract_years_from_text_def Let_def)
      then show ?thesis by blast
    qed
    then obtain xs where "store_and_copy (cache_key_of t h) xs w' = (r1, w1)" by blast
    with False None g show ?thesis by (intro miss) simp_all
  qed
qed

lemma extract_years_grows:
  assumes "extract_years_from_text eng now t h w = Inr (r1, w1)"
  shows "grows w w1 \<and> next_ref w \<le> r1 \<and> r1 < next_ref w1"
  using assms
proof (cases rule: extract_years_cases)
  case blank
  then have "r1 = fst (new_list [] w)" "w1 = snd (new_list [] w)" by simp_all
  then show ?thesis by (simp add: new_list_grows new_list_simps)
next
  case (hit rc)
  then have "r1 = fst (new_list (lists w rc) w)" "w1 = snd (new_list (lists w rc) w)"
    by simp_all
  then show ?thesis by (simp add: new_list_grows new_list_simps)
next
  case (miss xs w')
  have r1: "r1 = fst (store_and_copy (cache_key_of t h) xs w')"
    and w1: "w1 = snd (store_and_copy (cache_key_of t h) xs w')"
    using miss(5) by simp_all
  have "next_ref w \<le> next_ref w'" using miss(4) by (simp add: grows_def)
  then show ?thesis
    using store_and_copy_grows [OF miss(4) miss(3), of xs]
    by (simp add: r1 w1 store_and_copy_simps)
qed

text \<open>
  After a call: the list returned is a new object that the cache does not refer to,
  and unless the text was blank the cache holds a list with the same elements under
  the key of the call.
\<close>

lemma extract_years_result:
  assumes ex: "extract_years_from_text eng now t h w = Inr (r1, w1)" and wf: "refs_allocated w"
  shows "refs_allocated w1" "r1 < next_ref w1" "r1 \<notin> ran (cache w1)"
    "t = [] \<or> strip t = [] \<Longrightarrow> lists w1 r1 = []"
    "t \<noteq> [] \<Longrightarrow> strip t \<noteq> [] \<Longrightarrow>
       \<exists>rc. cache w1 (cache_key_of t h) = Some rc \<and> lists w1 rc = lists w1 r1"
proof -
  note g = extract_years_grows [OF ex]
  show "refs_allocated w1" using g wf grows_refs_allocated by blast
  show "r1 < next_ref w1" using g by simp
  show "r1 \<notin> ran (cache w1)"
    using ex
  proof (cases rule: extract_years_cases)
    case blank
    then have "r1 = fst (new_list [] w)" "w1 = snd (new_list [] w)" by simp_all
    then have "r1 = next_ref w" "cache w1 = cache w" by (simp_all add: new_list_simps)
    then show ?thesis using wf by (auto simp: ran_def refs_allocated_def)
  next
    case (hit rc)
    then have "r1 = fst (new_list (lists w rc) w)" "w1 = snd (new_list (lists w rc) w)"
      by simp_all
    then have "r1 = next_ref w" "cache w1 = cache w" by (simp_all add: new_list_simps)
    then show ?thesis using wf by (auto simp: ran_def refs_allocated_def)
  next
    case (miss xs w')
    have "r1 = fst (store_and_copy (cache_key_of t h) xs w')"
      "w1 = snd (store_and_copy (cache_key_of t h) xs w')"
      using miss(5) by simp_all
    then have r1: "r1 = Suc (next_ref w')"
      and c1: "cache w1 = (cache w')(cache_key_of t h \<mapsto> next_ref w')"
      by (simp_all add: store_and_copy_simps)
    have "refs_allocated w'" using miss(4) wf by (rule grows_refs_allocated)
    then have "r < next_ref w'" if "cache w' k = Some r" for k r
      using that by (auto simp: refs_allocated_def)
    then show ?thesis
      by (fastforce simp: r1 c1 ran_def split: if_splits)
  qed
  show "lists w1 r1 = []" if "t = [] \<or> strip t = []"
    using ex
  proof (cases rule: extract_years_cases)
    case blank
    then have "r1 = fst (new_list [] w)" "w1 = snd (new_list [] w)" by simp_all
    then show ?thesis by (simp add: new_list_simps)
  qed (use that in simp_all)
  show "\<exists>rc. cache w1 (cache_key_of t h) = Some rc \<and> lists w1 rc = lists w1 r1"
    if "t \<noteq> []" "strip t \<noteq> []"
    using ex
  proof (cases rule: extract_years_cases)
    case blank
    then show ?thesis using that by simp
  next
    case (hit rc)
    then have "r1 = fst (new_list (lists w rc) w)" "w1 = snd (new_list (lists w rc) w)"
      by simp_all
    then have f: "r1 = next_ref w" "cache w1 = cache w"
      "lists w1 = (lists w)(next_ref w := lists w rc)"
      by (simp_all add: new_list_simps)
    have "rc < next_ref w" using wf hit(3) by (auto simp: refs_allocated_def)
    then show ?thesis using hit(3) f by auto
  next
    case (miss xs w')
    have "r1 = fst (store_and_copy (cache_key_of t h) xs w')"
      "w1 = snd (store_and_copy (cache_key_of t h) xs w')"
      using miss(5) by simp_all
    then have "r1 = Suc (next_ref w')"
      "cache w1 = (cache w')(cache_key_of t h \<mapsto> next_ref w')"
      "lists w1 = (lists w')(next_ref w' := xs, Suc (next_ref w') := xs)"
      by (simp_all add: store_and_copy_simps)
    then show ?thesis by simp
  qed
qed


lemma later_invariant:
  assumes wf: "refs_allocated w0"
    and ex: "extract_years_from_text eng now t h w0 = Inr (r1, w1)"
    and l: "later eng now w1 w"
  shows "refs_allocated w \<and> r1 < next_ref w \<and> r1 \<notin> ran (cache w)
       \<and> (t \<noteq> [] \<and> strip t \<noteq> [] \<longrightarrow>
            (\<exists>rc. cache w (cache_key_of t h) = Some rc \<and> lists w rc = lists w1 r1))"
  using l
proof (induction rule: later.induct)
  case later_now
  show ?case using extract_years_result [OF ex wf] by blast
next
  case (later_call w' text' vendor' r w'')
  note g = extract_years_grows [OF later_call.hyps(2)]
  have wf': "refs_allocated w'" and lt: "r1 < next_ref w'" and nr: "r1 \<notin> ran (cache w')"
    using later_call.IH by simp_all
  have "refs_allocated w''" using g wf' grows_refs_allocated by blast
  moreover have "r1 < next_ref w''" using g lt by (auto simp: grows_def)
  moreover have "r1 \<notin> ran (cache w'')"
  proof
    assume "r1 \<in> ran (cache w'')"
    then obtain k where "cache w'' k = Some r1" by (auto simp: ran_def)
    then have "cache w' k = Some r1 \<or> next_ref w' \<le> r1" using g by (auto simp: grows_def)
    then show False using nr lt by (auto simp: ran_def)
  qed
  moreover have "\<exists>rc. cache w'' (cache_key_of t h) = Some rc \<and> lists w'' rc = lists w1 r1"
    if ne: "t \<noteq> []" "strip t \<noteq> []"
  proof -
    obtain rc where rc: "cache w' (cache_key_of t h) = Some rc" "lists w' rc = lists w1 r1"
      using later_call.IH ne by blast
    have "rc < next_ref w'" using wf' rc(1) by (auto simp: refs_allocated_def)
    then have "cache w'' (cache_key_of t h) = Some rc" "lists w'' rc = lists w' rc"
      using g rc(1) by (auto simp: grows_def)
    then show ?thesis using rc(2) by simp
  qed
  ultimately show ?case by blast
next
  case (later_mutate w' r xs)
  have wf': "refs_allocated w'" and lt: "r1 < next_ref w'" and nr: "r1 \<notin> ran (cache w')"
    using later_mutate.IH by simp_all
  have "\<exists>rc. cache w' (cache_key_of t h) = Some rc \<and> ((lists w')(r := xs)) rc = lists w1 r1"
    if ne: "t \<noteq> []" "strip t \<noteq> []"
  proof -
    obtain rc where rc: "cache w' (cache_key_of t h) = Some rc" "lists w' rc = lists w1 r1"
      using later_mutate.IH ne by blast
    then have "rc \<noteq> r" using later_mutate.hyps(2) by (auto simp: ran_def)
    then show ?thesis using rc by simp
  qed
  then show ?case using wf' lt nr by (simp add: refs_allocated_def)
qed

text \<open>
  Claim C10. After a call of \<open>extract_years_from_text\<close> has returned a list, every
  later call with the same text and vendor returns a list with the same elements, in
  a new list object: whatever calls were made in between, and whatever the callers
  did to the lists they received. In particular the next call does, served from the
  cache, which holds those elements under the key of the call unless the text is
  blank. The list returned is never one that the cache refers to, so changing it
  reaches no cached list.
\<close>

theorem extraction_memoized:
  assumes "refs_allocated w0"
    and "extract_years_from_text eng now text vendor_specific w0 = Inr (r1, w1)"
    and "later eng now w1 w"
  shows "r1 \<notin> ran (cache w)
       \<and> (\<exists>r2 w2. extract_years_from_text eng now text vendor_specific w = Inr (r2, w2)
             \<and> lists w2 r2 = lists w1 r1 \<and> r2 \<noteq> r1)
       \<and> (text \<noteq> [] \<and> strip text \<noteq> [] \<longrightarrow>
            (\<exists>rc. cache w (cache_key_of text vendor_specific) = Some rc
               \<and> lists w rc = lists w1 r1))"
proof -
  note inv = later_invariant [OF assms]
  have lt: "r1 < next_ref w" using inv by simp
  have "\<exists>r2 w2. extract_years_from_text eng now text vendor_specific w = Inr (r2, w2)
             \<and> lists w2 r2 = lists w1 r1 \<and> r2 \<noteq> r1"
  proof (cases "text = [] \<or> strip text = []")
    case True
    have first: "lists w1 r1 = []" using extract_years_result(4) [OF assms(2,1) True] .
    have "extract_years_from_text eng now text vendor_specific w
            = Inr (fst (new_list [] w), snd (new_list [] w))"
      using True by (simp add: extract_years_from_text_def)
    moreover have "lists (snd (new_list [] w)) (fst (new_list [] w)) = lists w1 r1"
      using first by (simp add: new_list_simps)
    moreover have "fst (new_list [] w) \<noteq> r1" using lt by (simp add: new_list_simps)
    ultimately show ?thesis by blast
  next
    case False
    then obtain rc where rc: "cache w (cache_key_of text vendor_specific) = Some rc"
      "lists w rc = lists w1 r1"
      using inv by blast
    have "extract_years_from_text eng now text vendor_specific w
            = Inr (fst (new_list (lists w rc) w), snd (new_list (lists w rc) w))"
      using False rc(1) by (simp add: extract_years_from_text_def)
    moreover have "lists (snd (new_list (lists w rc) w)) (fst (new_list (lists w rc) w))
                     = lists w1 r1"
      using rc(2) by (simp add: new_list_simps)
    moreover have "fst (new_list (lists w rc) w) \<noteq> r1" using lt by (simp add: new_list_simps)
    ultimately show ?thesis by blast
  qed
  then show ?thesis using inv by blast
qed

theorem extraction_memoized_witness:
  "returned ex_first
     = Inr [\<lparr>start_year = 2003, end_year = 2008, original_text = ''2003-2008'',
              format_detected = RANGE_FULL\<rparr>]
   \<and> lists ex_w1_emptied ex_r1 = []
   \<and> returned (extract_years_from_text py_re 2026 ''[2003-2008]'' (Some ''DEPO'') ex_w1_emptied)
       = Inr [\<lparr>start_year = 2003, end_year = 2008, original_text = ''2003-2008'',
                format_detected = RANGE_FULL\<rparr>]"
proof -
  have a: "returned ex_first
     = Inr [\<lparr>start_year = 2003, end_year = 2008, original_text = ''2003-2008'',
              format_detected = RANGE_FULL\<rparr>]"
    by code_simp
  have "\<exists>rw. ex_first = Inr rw"
    using a by (auto simp: returned_def split: sum.splits)
  then obtain rw where rw: "ex_first = Inr rw" by blast
  have first: "extract_years_from_text py_re 2026 ''[2003-2008]'' (Some ''DEPO'') new_world
                 = Inr (ex_r1, ex_w1)"
  proof -
    have "ex_r1 = fst rw" "ex_w1 = snd rw"
      unfolding ex_r1_def ex_w1_def rw by simp_all
    then have "rw = (ex_r1, ex_w1)" by (simp add: prod_eq_iff)
    then show ?thesis using rw [unfolded ex_first_def] by simp
  qed
  have l1: "lists ex_w1 ex_r1
     = [\<lparr>start_year = 2003, end_year = 2008, original_text = ''2003-2008'',
              format_detected = RANGE_FULL\<rparr>]"
  proof -
    have "ex_r1 = fst rw" "ex_w1 = snd rw"
      unfolding ex_r1_def ex_w1_def rw by simp_all
    then have "rw = (ex_r1, ex_w1)" by (simp add: prod_eq_iff)
    then show ?thesis using a unfolding returned_def rw by simp
  qed
  have wf: "refs_allocated new_world" by (simp add: refs_allocated_def new_world_def)
  have "ex_r1 \<notin> ran (cache ex_w1)"
    using extraction_memoized [OF wf first later_now] by blast
  then have "later py_re 2026 ex_w1 ex_w1_emptied"
    unfolding ex_w1_emptied_def by (rule later_mutate [OF later_now])
  from extraction_memoized [OF wf first this]
  obtain r2 w2 where second:
    "extract_years_from_text py_re 2026 ''[2003-2008]'' (Some ''DEPO'') ex_w1_emptied = Inr (r2, w2)"
    "lists w2 r2 = lists ex_w1 ex_r1"
    by blast
  have b: "lists ex_w1_emptied ex_r1 = []" by (simp add: ex_w1_emptied_def)
  have c: "returned (extract_years_from_text py_re 2026 ''[2003-2008]'' (Some ''DEPO'') ex_w1_emptied)
       = Inr [\<lparr>start_year = 2003, end_year = 2008, original_text = ''2003-2008'',
                format_detected = RANGE_FULL\<rparr>]"
    using second l1 by (simp add: returned_def)
  show ?thesis using a b c by (intro conjI)
qed

subsection \<open>Century rule in every context; rejection of years outside the window\<close>



text \<open>
  Claim C9. Year parsing does not raise: \<open>parse_single_year\<close> always returns (the
  \<^verbatim>\<open>ValueError\<close> of \<^verbatim>\<open>int\<close> is the only exception that can arise and it is
  caught), and with a library whose matches carry their pattern's groups the scan of
  a text and \<open>extract_years_from_text\<close> always return. On empty or blank text the
  list returned is empty and the cache is left alone. A token whose year is outside
  \<open>[1885, now + 5]\<close> stands for no year, and a year that a token stands for is the
  number read from it (after the century rule), never a year moved into the window.
  Such a token contributes no range: a range with it at either end is dropped, and a
  list or the single years of a text give the ranges they would give without it;
  what a call returns on a text that is not cached is exactly the ranges of the
  tokens of the text. Every range of a returned list has both years inside the window.
\<close>

theorem year_parsing_never_raises:
  assumes "engine_ok eng" and "cache_valid now w"
  shows "parse_single_year now tok = Inr (token_year now tok)
       \<and> (\<forall>n. py_int (drop_apostrophes (strip tok)) = Inr n
              \<and> \<not> is_valid_automotive_year now
                    (if 0 \<le> n \<and> n \<le> 99 then convert_short_year n else n)
            \<longrightarrow> token_year now tok = None)
       \<and> (\<forall>y. token_year now tok = Some y \<longrightarrow>
              is_valid_automotive_year now y
              \<and> (\<exists>n. py_int (drop_apostrophes (strip tok)) = Inr n
                     \<and> y = (if 0 \<le> n \<and> n \<le> 99 then convert_short_year n else n)))
       \<and> parse_year_range now s e original =
            Inr (case pair_ranges now s e original of [] \<Rightarrow> None | r # _ \<Rightarrow> Some r)
       \<and> (token_year now s = None \<or> token_year now e = None \<longrightarrow>
            pair_ranges now s e original = []
            \<and> parse_year_range now s e original = Inr None)
       \<and> (token_year now tok = None \<longrightarrow>
            single_year_ranges now f (pre @ tok # post) = single_year_ranges now f (pre @ post)
            \<and> list_ranges_of now (pre @ tok # post) = list_ranges_of now (pre @ post))
       \<and> scan_text eng now t ranges = Inr (ranges @ text_ranges eng now t)
       \<and> (\<exists>r w'. extract_years_from_text eng now t vendor_specific w = Inr (r, w')
             \<and> list_all (valid_range now) (lists w' r)
             \<and> cache_valid now w'
             \<and> (strip t = [] \<longrightarrow> lists w' r = [] \<and> cache w' = cache w)
             \<and> (t \<noteq> [] \<and> strip t \<noteq> [] \<and> vendor_specific = None
                  \<and> cache w (cache_key_of t None) = None \<longrightarrow>
                  lists w' r = text_ranges eng now (strip t)))"
proof -
  have c1: "parse_single_year now tok = Inr (token_year now tok)"
    by (rule parse_single_year_eq)
  have c2: "\<forall>n. py_int (drop_apostrophes (strip tok)) = Inr n
              \<and> \<not> is_valid_automotive_year now
                    (if 0 \<le> n \<and> n \<le> 99 then convert_short_year n else n)
            \<longrightarrow> token_year now tok = None"
    using token_year_rejects by blast
  have c3: "\<forall>y. token_year now tok = Some y \<longrightarrow>
              is_valid_automotive_year now y
              \<and> (\<exists>n. py_int (drop_apostrophes (strip tok)) = Inr n
                     \<and> y = (if 0 \<le> n \<and> n \<le> 99 then convert_short_year n else n))"
    by (auto simp: token_year_def Let_def split: sum.splits if_splits)
  have c4: "parse_year_range now s e original =
            Inr (case pair_ranges now s e original of [] \<Rightarrow> None | r # _ \<Rightarrow> Some r)"
    by (rule parse_year_range_eq)
  have c5: "token_year now s = None \<or> token_year now e = None \<longrightarrow>
            pair_ranges now s e original = []
            \<and> parse_year_range now s e original = Inr None"
    by (auto simp: parse_year_range_eq pair_ranges_def split: option.splits)
  have c6: "token_year now tok = None \<longrightarrow>
            single_year_ranges now f (pre @ tok # post) = single_year_ranges now f (pre @ post)
            \<and> list_ranges_of now (pre @ tok # post) = list_ranges_of now (pre @ post)"
    by (simp add: single_year_ranges_def list_ranges_of_def map_filter_append
          List.map_filter_def)
  have c7: "scan_text eng now t ranges = Inr (ranges @ text_ranges eng now t)"
    by (rule scan_text_eq [OF assms(1)])
  obtain r w' where ex: "extract_years_from_text eng now t vendor_specific w = Inr (r, w')"
    "list_all (valid_range now) (lists w' r)" "cache_valid now w'"
    "strip t = [] \<longrightarrow> lists w' r = [] \<and> cache w' = cache w"
    using extract_years_total [OF assms, of t vendor_specific] by blast
  have exact: "t \<noteq> [] \<and> strip t \<noteq> [] \<and> vendor_specific = None
        \<and> cache w (cache_key_of t None) = None \<longrightarrow>
        lists w' r = text_ranges eng now (strip t)"
  proof
    assume h: "t \<noteq> [] \<and> strip t \<noteq> [] \<and> vendor_specific = None
        \<and> cache w (cache_key_of t None) = None"
    then have "returned (extract_years_from_text eng now t None w)
                 = Inr (text_ranges eng now (strip t))"
      using extract_plain_miss [OF assms(1), of t w now] by blast
    moreover have "extract_years_from_text eng now t None w = Inr (r, w')"
      using ex(1) h by simp
    ultimately show "lists w' r = text_ranges eng now (strip t)"
      by (simp add: returned_def)
  qed
  have c8: "\<exists>r w'. extract_years_from_text eng now t vendor_specific w = Inr (r, w')
             \<and> list_all (valid_range now) (lists w' r)
             \<and> cache_valid now w'
             \<and> (strip t = [] \<longrightarrow> lists w' r = [] \<and> cache w' = cache w)
             \<and> (t \<noteq> [] \<and> strip t \<noteq> [] \<and> vendor_specific = None
                  \<and> cache w (cache_key_of t None) = None \<longrightarrow>
                  lists w' r = text_ranges eng now (strip t))"
    using ex exact by (intro exI [of _ r] exI [of _ w'] conjI)
  show ?thesis using c1 c2 c3 c4 c5 c6 c7 c8 by (intro conjI)
qed

theorem year_parsing_never_raises_witness:
  "returned (extract_years_from_text py_re 2026 ''2010-2099'' None new_world) = Inr []
   \<and> returned (extract_years_from_text py_re 2026 ''2010, 2099, 31'' None new_world)
     = Inr [\<lparr>start_year = 2010, end_year = 2010, original_text = ''2010'',
              format_detected = FULL_YEAR\<rparr>,
            \<lparr>start_year = 1931, end_year = 1931, original_text = ''31'',
              format_detected = SHORT_YEAR\<rparr>]
   \<and> parse_single_year 2026 ''2099'' = Inr None
   \<and> parse_single_year 2026 ''20x9'' = Inr None
   \<and> parse_year_range 2026 ''2010'' ''2099'' ''2010-2099'' = Inr None
   \<and> returned (extract_years_from_text py_re 2026 ''   '' (Some ''depo'') new_world) = Inr []"
proof -
  note t1 = year_parsing_never_raises [OF engine_ok_py_re cache_valid_new_world,
      where now = 2026 and tok = "''2099''" and t = "''2010-2099''" and vendor_specific = None
        and s = "''2010''" and e = "''2099''" and original = "''2010-2099''"]
  note t2 = year_parsing_never_raises [OF engine_ok_py_re cache_valid_new_world,
      where now = 2026 and tok = "''20x9''" and t = "''2010, 2099, 31''"
        and vendor_specific = None]
  note t3 = year_parsing_never_raises [OF engine_ok_py_re cache_valid_new_world,
      where now = 2026 and t = "''   ''" and vendor_specific = "Some ''depo''"]
  have bad: "py_int (drop_apostrophes (strip ''2099'')) = Inr 2099
          \<and> \<not> is_valid_automotive_year 2026
                (if 0 \<le> (2099::int) \<and> (2099::int) \<le> 99 then convert_short_year 2099 else 2099)"
    by code_simp
  have n1: "token_year 2026 ''2099'' = None"
    by (rule t1 [THEN conjunct2, THEN conjunct1, THEN spec, THEN mp, OF bad])
  have n2: "token_year 2026 ''20x9'' = None" by code_simp
  have c: "parse_single_year 2026 ''2099'' = Inr None"
    using t1 [THEN conjunct1] by (simp only: n1)
  have d: "parse_single_year 2026 ''20x9'' = Inr None"
    using t2 [THEN conjunct1] by (simp only: n2)
  have e: "parse_year_range 2026 ''2010'' ''2099'' ''2010-2099'' = Inr None"
    using t1 [THEN conjunct2, THEN conjunct2, THEN conjunct2, THEN conjunct2, THEN conjunct1]
      n1 by simp
  have miss: "''2010-2099'' \<noteq> [] \<and> strip ''2010-2099'' \<noteq> [] \<and> (None :: string option) = None
              \<and> cache new_world (cache_key_of ''2010-2099'' None) = None"
    "''2010, 2099, 31'' \<noteq> [] \<and> strip ''2010, 2099, 31'' \<noteq> [] \<and> (None :: string option) = None
              \<and> cache new_world (cache_key_of ''2010, 2099, 31'' None) = None"
    by (simp_all add: new_world_def strip_def is_space_def)
  have v1: "text_ranges py_re 2026 (strip ''2010-2099'') = []" by code_simp
  have v2: "text_ranges py_re 2026 (strip ''2010, 2099, 31'')
     = [\<lparr>start_year = 2010, end_year = 2010, original_text = ''2010'',
              format_detected = FULL_YEAR\<rparr>,
            \<lparr>start_year = 1931, end_year = 1931, original_text = ''31'',
              format_detected = SHORT_YEAR\<rparr>]"
    by code_simp
  have a: "returned (extract_years_from_text py_re 2026 ''2010-2099'' None new_world) = Inr []"
  proof -
    from t1 [THEN conjunct2, THEN conjunct2, THEN conjunct2, THEN conjunct2, THEN conjunct2,
             THEN conjunct2, THEN conjunct2]
    obtain r w' where
      ex: "extract_years_from_text py_re 2026 ''2010-2099'' None new_world = Inr (r, w')"
      and exact: "''2010-2099'' \<noteq> [] \<and> strip ''2010-2099'' \<noteq> [] \<and> (None :: string option) = None
              \<and> cache new_world (cache_key_of ''2010-2099'' None) = None
            \<longrightarrow> lists w' r = text_ranges py_re 2026 (strip ''2010-2099'')"
      by blast
    from exact miss(1) have "lists w' r = text_ranges py_re 2026 (strip ''2010-2099'')"
      by (rule mp)
    then show ?thesis by (simp add: returned_def ex v1)
  qed
  have b: "returned (extract_years_from_text py_re 2026 ''2010, 2099, 31'' None new_world)
     = Inr [\<lparr>start_year = 2010, end_year = 2010, original_text = ''2010'',
              format_detected = FULL_YEAR\<rparr>,
            \<lparr>start_year = 1931, end_year = 1931, original_text = ''31'',
              format_detected = SHORT_YEAR\<rparr>]"
  proof -
    from t2 [THEN conjunct2, THEN conjunct2, THEN conjunct2, THEN conjunct2, THEN conjunct2,
             THEN conjunct2, THEN conjunct2]
    obtain r w' where
      ex: "extract_years_from_text py_re 2026 ''2010, 2099, 31'' None new_world = Inr (r, w')"
      and exact: "''2010, 2099, 31'' \<noteq> [] \<and> strip ''2010, 2099, 31'' \<noteq> []
              \<and> (None :: string option) = None
              \<and> cache new_world (cache_key_of ''2010, 2099, 31'' None) = None
            \<longrightarrow> lists w' r = text_ranges py_re 2026 (strip ''2010, 2099, 31'')"
      by blast
    from exact miss(2) have "lists w' r = text_ranges py_re 2026 (strip ''2010, 2099, 31'')"
      by (rule mp)
    then show ?thesis by (simp add: returned_def ex v2)
  qed
  have blank: "strip ''   '' = []" by (simp add: strip_def is_space_def)
  have g: "returned (extract_years_from_text py_re 2026 ''   '' (Some ''depo'') new_world) = Inr []"
  proof -
    from t3 [THEN conjunct2, THEN conjunct2, THEN conjunct2, THEN conjunct2, THEN conjunct2,
             THEN conjunct2, THEN conjunct2]
    obtain r w' where
      ex: "extract_years_from_text py_re 2026 ''   '' (Some ''depo'') new_world = Inr (r, w')"
      and bl: "strip ''   '' = [] \<longrightarrow> lists w' r = [] \<and> cache w' = cache new_world"
      by blast
    from bl blank have "lists w' r = []" by simp
    then show ?thesis by (simp add: returned_def ex)
  qed
  show ?thesis using a b c d e g by (intro conjI)
qed

subsection \<open>Scoring of signatures\<close>

lemma count_matching_all:
  "\<forall>p\<in>set ps. findall p t \<noteq> [] \<Longrightarrow> count_matching findall ps t = length ps"
  by (simp add: count_matching_def)

lemma count_matching_none:
  "\<forall>p\<in>set ps. findall p t = [] \<Longrightarrow> count_matching findall ps t = 0"
  by (simp add: count_matching_def)

lemma count_matching_le: "count_matching findall ps t \<le> length ps"
  by (simp add: count_matching_def)

lemma count_matching_missing:
  "\<exists>p\<in>set ps. findall p t = [] \<Longrightarrow> count_matching findall ps t < length ps"
proof -
  assume "\<exists>p\<in>set ps. findall p t = []"
  then obtain p where p: "p \<in> set ps" "\<not> findall p t \<noteq> []" by auto
  then show ?thesis
    unfolding count_matching_def by (rule length_filter_less)
qed

lemma foldl_analyze_step_total:
  "fst (foldl (analyze_step findall t) acc es)
     = fst acc + sum_list (map (\<lambda>e. contribution findall t (snd e)) es)"
  by (induction es arbitrary: acc)
     (auto simp: analyze_step_def contribution_def split: option.splits)

lemma analyze_total:
  "fst (analyze_vendor_signatures findall t sigs) = sum_list (map (contribution findall t) sigs)"
proof -
  have "map (\<lambda>e. contribution findall t (snd e)) (enumerate 0 sigs)
        = map (contribution findall t) (map snd (enumerate 0 sigs))"
    by (simp add: comp_def del: map_snd_enumerate)
  also have "\<dots> = map (contribution findall t) sigs"
    by (simp only: map_snd_enumerate)
  finally show ?thesis
    by (simp add: analyze_vendor_signatures_def foldl_analyze_step_total)
qed

lemma contribution_nonneg: "0 \<le> contribution findall t s"
  by (simp add: contribution_def split: option.splits)

lemma analyze_total_nonneg: "0 \<le> fst (analyze_vendor_signatures findall t sigs)"
  unfolding analyze_total by (rule sum_list_nonneg) (auto simp: contribution_nonneg)



text \<open>
  Claim C3. A signature with a required pattern that has no match in the text is
  skipped: it has no score, it adds 0 to its vendor's total, and the total is what it
  would be without that signature, whatever its optional and exclusion patterns are.
  A signature without required patterns always qualifies, and its score is built on
  the base 0.6.
\<close>

theorem signature_missing_required:
  "((\<exists>p\<in>set (required_patterns sg). findall p t = []) \<longrightarrow>
      signature_score findall t sg = None
      \<and> contribution findall t sg = 0
      \<and> fst (analyze_vendor_signatures findall t (pre @ sg # post))
          = fst (analyze_vendor_signatures findall t (pre @ post)))
   \<and> (required_patterns sg = [] \<longrightarrow>
      signature_score findall t sg =
        Some ((0.6 + (if optional_patterns sg = [] then 0
                      else 0.3 * real (count_matching findall (optional_patterns sg) t)
                             / real (length (optional_patterns sg))))
              * (if count_matching findall (exclusion_patterns sg) t = 0 then 1
                 else max 0.1 (1.0 - 0.3 * real (count_matching findall (exclusion_patterns sg) t)))
              * weight sg))"
proof (intro conjI impI)
  assume miss: "\<exists>p\<in>set (required_patterns sg). findall p t = []"
  show none: "signature_score findall t sg = None"
    using count_matching_missing [where findall = findall and t = t, OF miss]
    by (simp add: signature_score_def)
  then show zero: "contribution findall t sg = 0"
    by (simp add: contribution_def)
  then show "fst (analyze_vendor_signatures findall t (pre @ sg # post))
             = fst (analyze_vendor_signatures findall t (pre @ post))"
    by (simp add: analyze_total)
next
  assume "required_patterns sg = []"
  then show "signature_score findall t sg =
        Some ((0.6 + (if optional_patterns sg = [] then 0
                      else 0.3 * real (count_matching findall (optional_patterns sg) t)
                             / real (length (optional_patterns sg))))
              * (if count_matching findall (exclusion_patterns sg) t = 0 then 1
                 else max 0.1 (1.0 - 0.3 * real (count_matching findall (exclusion_patterns sg) t)))
              * weight sg)"
    by (simp add: signature_score_def count_matching_def Let_def mult.commute)
qed

theorem signature_missing_required_witness:
  "signature_score literal_findall ex_text_other ex_sig_depo = None
   \<and> fst (analyze_vendor_signatures literal_findall ex_text_other [ex_sig_generic, ex_sig_depo])
       = fst (analyze_vendor_signatures literal_findall ex_text_other [ex_sig_generic])
   \<and> signature_score literal_findall ex_text_other ex_sig_generic = Some 0.3"
proof -
  have miss: "\<exists>p\<in>set (required_patterns ex_sig_depo). literal_findall p ex_text_other = []"
    by (simp add: ex_sig_depo_def ex_text_other_def)
  have nil: "required_patterns ex_sig_generic = []"
    by (simp add: ex_sig_generic_def)
  have cnt: "count_matching literal_findall (optional_patterns ex_sig_generic) ex_text_other = 0"
    "count_matching literal_findall (exclusion_patterns ex_sig_generic) ex_text_other = 0"
    "optional_patterns ex_sig_generic \<noteq> []" "weight ex_sig_generic = 0.5"
    by (simp_all add: count_matching_def ex_sig_generic_def ex_text_other_def)
  show ?thesis
    using signature_missing_required
            [of ex_sig_depo literal_findall ex_text_other "[ex_sig_generic]" "[]"]
          signature_missing_required
            [of ex_sig_generic literal_findall ex_text_other "[]" "[]"]
          miss nil cnt
    by simp
qed



subsection \<open>Choice of the vendor\<close>

lemma max_key_mem: "max_key best d \<in> set (best # d)"
  by (induction d arbitrary: best) (auto split: if_splits)

lemma max_key_ge: "kv \<in> set (best # d) \<Longrightarrow> snd kv \<le> snd (max_key best d)"
proof (induction d arbitrary: best kv)
  case Nil
  then show ?case by simp
next
  case (Cons x d)
  let ?b = "if snd x > snd best then x else best"
  have step: "snd best \<le> snd (max_key ?b d)" "snd x \<le> snd (max_key ?b d)"
    using Cons.IH [of ?b ?b] by (auto split: if_splits)
  from Cons.prems consider "kv = best" | "kv = x" | "kv \<in> set d" by auto
  then show ?case
  proof cases
    case 3
    then show ?thesis using Cons.IH [of kv ?b] by simp
  qed (use step in simp_all)
qed

text \<open>
  The values handed to the constructor of the result are those the specification
  describes: GENERIC with 0.3 when no vendor has a positive total, otherwise a vendor
  of largest total with that total cut at 1.
\<close>

lemma select_best_all_zero:
  assumes "\<forall>e\<in>set scored. fst (snd e) = 0"
  shows "fst (select_best scored) = GENERIC \<and> fst (snd (select_best scored)) = 0.3"
proof (cases scored)
  case Nil
  then show ?thesis by (simp add: select_best_def)
next
  case (Cons e es)
  let ?kv = "(fst e, fst (snd e))"
  let ?rest = "map (\<lambda>e. (fst e, fst (snd e))) es"
  have "max_key ?kv ?rest \<in> set (?kv # ?rest)" by (rule max_key_mem)
  then have "snd (max_key ?kv ?rest) = 0"
    using assms Cons by auto
  then show ?thesis using Cons by (simp add: select_best_def)
qed

lemma select_best_max:
  assumes "\<exists>e\<in>set scored. fst (snd e) \<noteq> 0" and "\<forall>e\<in>set scored. 0 \<le> fst (snd e)"
  shows "\<exists>s. (fst (select_best scored), s) \<in> set (map (\<lambda>e. (fst e, fst (snd e))) scored)
           \<and> (\<forall>e\<in>set scored. fst (snd e) \<le> s)
           \<and> fst (snd (select_best scored)) = min s 1"
proof (cases scored)
  case Nil
  then show ?thesis using assms by simp
next
  case (Cons e es)
  let ?kv = "(fst e, fst (snd e))"
  let ?rest = "map (\<lambda>e. (fst e, fst (snd e))) es"
  let ?m = "max_key ?kv ?rest"
  have mem: "?m \<in> set (?kv # ?rest)" by (rule max_key_mem)
  have ge: "fst (snd x) \<le> snd ?m" if "x \<in> set scored" for x
  proof -
    have "(fst x, fst (snd x)) \<in> set (?kv # ?rest)" using that Cons by auto
    from max_key_ge [OF this] show ?thesis by simp
  qed
  obtain x where x: "x \<in> set scored" "fst (snd x) \<noteq> 0" using assms(1) by blast
  then have "0 < fst (snd x)" using assms(2) by force
  then have nz: "snd ?m \<noteq> 0" using ge [OF x(1)] by linarith
  have sel: "select_best scored = (fst ?m, min (snd ?m) 1,
               (case map_of scored (fst ?m) of None \<Rightarrow> [] | Some a \<Rightarrow> snd a))"
    using Cons nz by (simp add: select_best_def Let_def)
  have in_scores: "(fst ?m, snd ?m) \<in> set (map (\<lambda>e. (fst e, fst (snd e))) scored)"
    using mem Cons by simp
  have fst_sel: "fst (select_best scored) = fst ?m"
    and conf_sel: "fst (snd (select_best scored)) = min (snd ?m) 1"
    by (simp_all add: sel)
  show ?thesis
  proof (intro exI [of _ "snd ?m"] conjI ballI)
    show "(fst (select_best scored), snd ?m) \<in> set (map (\<lambda>e. (fst e, fst (snd e))) scored)"
      using in_scores by (simp only: fst_sel)
    show "fst (snd x) \<le> snd ?m" if "x \<in> set scored" for x
      using that by (rule ge)
    show "fst (snd (select_best scored)) = min (snd ?m) 1"
      by (rule conf_sel)
  qed
qed

lemma DetectionResult_init_missing_level: "DetectionResult_init v c None ms = Inl TypeError"
  by (simp add: DetectionResult_init_def)

lemma perform_detection_raises:
  "perform_detection findall extract all_signatures pdf_metadata = Inl TypeError"
  by (simp add: perform_detection_def DetectionResult_init_missing_level Let_def)

lemma detect_vendor_uncached_raises:
  assumes "force_refresh \<or>
           detection_cache self (file_path pdf_metadata @ '':'' @ file_hash pdf_metadata) = None"
  shows "detect_vendor findall extract self pdf_metadata force_refresh = Inl TypeError"
  using assms
  by (auto simp: detect_vendor_def perform_detection_raises DetectionResult_init_missing_level
           Let_def)

text \<open>
  Claim C1, on the code. The document \<open>ex_pdf_valid\<close> is valid and has text, and no
  vendor's signature qualifies, so every total is 0: the selection computes GENERIC
  with confidence 0.3, as the claim says, but the construction of the
  \<^verbatim>\<open>DetectionResult\<close> that follows omits the required field \<^verbatim>\<open>confidence_level\<close>,
  and \<^verbatim>\<open>detect_vendor\<close> ends in a \<^verbatim>\<open>TypeError\<close> instead of returning.
\<close>

theorem detect_vendor_valid_raises:
  "map (\<lambda>e. fst (snd e))
     (score_vendors literal_findall (join_newline (ex_extract (file_path ex_pdf_valid)))
        (signatures ex_detector)) = [0, 0]
   \<and> fst (select_best
        (score_vendors literal_findall (join_newline (ex_extract (file_path ex_pdf_valid)))
           (signatures ex_detector))) = GENERIC
   \<and> fst (snd (select_best
        (score_vendors literal_findall (join_newline (ex_extract (file_path ex_pdf_valid)))
           (signatures ex_detector)))) = 0.3
   \<and> detect_vendor literal_findall ex_extract ex_detector ex_pdf_valid False = Inl TypeError"
proof -
  have sc: "score_vendors literal_findall (join_newline (ex_extract (file_path ex_pdf_valid)))
              (signatures ex_detector) = [(DEPO, 0, []), (YUTO, 0, [])]"
    by (simp add: score_vendors_def ex_detector_def ex_pdf_valid_def ex_extract_def
          analyze_vendor_signatures_def analyze_step_def signature_score_def count_matching_def
          ex_sig_depo_def ex_sig_yuto_def)
  have sel: "select_best [(DEPO, 0, []), (YUTO, 0, [])] = (GENERIC, 0.3, [])"
    by (simp add: select_best_def)
  have "detect_vendor literal_findall ex_extract ex_detector ex_pdf_valid False = Inl TypeError"
    by (simp add: detect_vendor_def perform_detection_def DetectionResult_init_def
          ex_detector_def ex_pdf_valid_def ex_extract_def Let_def)
  then show ?thesis by (simp add: sc sel)
qed

text \<open>
  Claim C5, on the code. The document \<open>ex_pdf_corrupted\<close> has the status CORRUPTED.
  \<^verbatim>\<open>detect_vendor\<close> takes the branch for a status that is not VALID and builds
  \<^verbatim>\<open>DetectionResult(vendor=UNKNOWN, confidence=0.0, evidence=...)\<close>, which omits the
  required field \<^verbatim>\<open>confidence_level\<close>: the call ends in a \<^verbatim>\<open>TypeError\<close> that
  nothing catches, and no result is returned.
\<close>

theorem detect_vendor_invalid_raises:
  "status ex_pdf_corrupted \<noteq> VALID
   \<and> detect_vendor literal_findall ex_extract ex_detector ex_pdf_corrupted False = Inl TypeError"
  by (simp add: detect_vendor_def DetectionResult_init_def ex_detector_def ex_pdf_corrupted_def
        Let_def)

end
